theory Spec2Isabelle
  imports Complex_Main "HOL-Library.Log_Nat"
begin

section \<open>The host language: ECMAScript time values\<close>

text \<open>
  The date module is written against the ECMAScript \<^verbatim>\<open>Date\<close> object. A \<^verbatim>\<open>Date\<close> holds one
  time value: an integral number of milliseconds since 1970-01-01T00:00:00Z, or NaN
  (an "Invalid Date"). The functions below are the abstract operations of the language
  standard (section "Date Objects"), written with the standard's names. Integer division
  \<open>div\<close> and \<open>mod\<close> on \<open>int\<close> are the floored ones the standard uses.
\<close>

definition msPerDay :: int where
  "msPerDay = 86400000"

definition Day :: "int \<Rightarrow> int" where
  "Day t = t div msPerDay"

definition TimeWithinDay :: "int \<Rightarrow> int" where
  "TimeWithinDay t = t mod msPerDay"

definition DaysInYear :: "int \<Rightarrow> int" where
  "DaysInYear y =
     (if y mod 4 \<noteq> 0 then 365
      else if y mod 100 \<noteq> 0 then 366
      else if y mod 400 \<noteq> 0 then 365
      else 366)"

definition DayFromYear :: "int \<Rightarrow> int" where
  "DayFromYear y =
     365 * (y - 1970) + (y - 1969) div 4 - (y - 1901) div 100 + (y - 1601) div 400"

text \<open>
  The standard defines \<open>YearFromTime t\<close> as the largest year whose first day is not after
  \<open>t\<close>. That is computed here from an estimate (the mean Gregorian year has
  146097 / 400 days) that is at most one year off, followed by one correction step.
\<close>

definition YearFromDay :: "int \<Rightarrow> int" where
  "YearFromDay d =
     (let y = 1970 + (d * 400) div 146097
      in if d < DayFromYear y then y - 1
         else if DayFromYear (y + 1) \<le> d then y + 1
         else y)"

definition YearFromTime :: "int \<Rightarrow> int" where
  "YearFromTime t = YearFromDay (Day t)"

definition InLeapYear :: "int \<Rightarrow> int" where
  "InLeapYear t = (if DaysInYear (YearFromTime t) = 365 then 0 else 1)"

definition DayWithinYear :: "int \<Rightarrow> int" where
  "DayWithinYear t = Day t - DayFromYear (YearFromTime t)"

definition MonthFromTime :: "int \<Rightarrow> int" where
  "MonthFromTime t =
     (let d = DayWithinYear t; l = InLeapYear t
      in if d < 31 then 0
         else if d < 59 + l then 1
         else if d < 90 + l then 2
         else if d < 120 + l then 3
         else if d < 151 + l then 4
         else if d < 181 + l then 5
         else if d < 212 + l then 6
         else if d < 243 + l then 7
         else if d < 273 + l then 8
         else if d < 304 + l then 9
         else if d < 334 + l then 10
         else 11)"

definition DateFromTime :: "int \<Rightarrow> int" where
  "DateFromTime t =
     (let d = DayWithinYear t; l = InLeapYear t; m = MonthFromTime t
      in if m = 0 then d + 1
         else if m = 1 then d - 30
         else if m = 2 then d - 58 - l
         else if m = 3 then d - 89 - l
         else if m = 4 then d - 119 - l
         else if m = 5 then d - 150 - l
         else if m = 6 then d - 180 - l
         else if m = 7 then d - 211 - l
         else if m = 8 then d - 242 - l
         else if m = 9 then d - 272 - l
         else if m = 10 then d - 303 - l
         else d - 333 - l)"

definition WeekDay :: "int \<Rightarrow> int" where
  "WeekDay t = (Day t + 4) mod 7"

text \<open>
  \<open>MakeDay year month date\<close>: the day number of the given calendar day. The month may lie
  outside 0..11 and the date outside the month; both carry over, which is what
  \<^verbatim>\<open>setDate\<close> relies on.
\<close>

definition DaysBeforeMonth :: "int \<Rightarrow> int \<Rightarrow> int" where
  "DaysBeforeMonth y m =
     (let l = (if DaysInYear y = 365 then 0 else 1)
      in if m = 0 then 0
         else if m = 1 then 31
         else if m = 2 then 59 + l
         else if m = 3 then 90 + l
         else if m = 4 then 120 + l
         else if m = 5 then 151 + l
         else if m = 6 then 181 + l
         else if m = 7 then 212 + l
         else if m = 8 then 243 + l
         else if m = 9 then 273 + l
         else if m = 10 then 304 + l
         else 334 + l)"

definition MakeDay :: "int \<Rightarrow> int \<Rightarrow> int \<Rightarrow> int" where
  "MakeDay year month date =
     (let ym = year + month div 12; mn = month mod 12
      in DayFromYear ym + DaysBeforeMonth ym mn + date - 1)"

definition MakeDate :: "int \<Rightarrow> int \<Rightarrow> int" where
  "MakeDate day time = day * msPerDay + time"


definition LocalTime :: "int \<Rightarrow> int \<Rightarrow> int" where
  "LocalTime tza t = t + tza"

definition UTC :: "int \<Rightarrow> int \<Rightarrow> int" where
  "UTC tza t = t - tza"

text \<open>
  The local time zone is a parameter \<open>tza\<close> of every operation that reads or writes local
  calendar fields: the offset of local time from UTC in milliseconds (32400000 for KST).
  It is one fixed offset; daylight-saving transitions are not modelled.
\<close>

section \<open>The host language: numbers\<close>

text \<open>
  A \<^verbatim>\<open>number\<close> is an IEEE 754 double: NaN, an infinity, or a finite value, which is kept
  as the rational it denotes (the two zeros are one value). The result of an arithmetic
  operation and the value of a numeric literal are rounded to the nearest double, ties to
  the even significand, and to an infinity from \<open>2^1024 - 2^970\<close> on.
\<close>

datatype jsnum = NaN | PosInf | NegInf | Fin rat

definition pow2 :: "int \<Rightarrow> rat" where
  "pow2 e = (if 0 \<le> e then 2 ^ nat e else 1 / 2 ^ nat (- e))"

text \<open>For \<open>a > 0\<close>, the exponent \<open>e\<close> with \<open>2^e \<le> a < 2^(e+1)\<close>.\<close>

definition ilog2 :: "rat \<Rightarrow> int" where
  "ilog2 a = (if 1 \<le> a then bitlen \<lfloor>a\<rfloor> - 1 else - bitlen (\<lceil>1 / a\<rceil> - 1))"

definition roundHalfEven :: "rat \<Rightarrow> int" where
  "roundHalfEven x =
     (let f = \<lfloor>x\<rfloor>; d = x - of_int f
      in if d < 1 / 2 then f
         else if 1 / 2 < d then f + 1
         else if even f then f else f + 1)"

text \<open>
  \<open>toDouble r\<close>: the double nearest to the real number \<open>r\<close>. The significand has 53 bits;
  below \<open>2^-1022\<close> the doubles are \<open>2^-1074\<close> apart.
\<close>

definition toDouble :: "rat \<Rightarrow> jsnum" where
  "toDouble r =
     (if r = 0 then Fin 0
      else
        (let a = \<bar>r\<bar>;
             e = max (ilog2 a) (- 1022);
             q = pow2 (e - 52);
             m = roundHalfEven (a / q)
         in if 1024 \<le> e \<or> (e = 1023 \<and> m = 2 ^ 53)
            then (if r < 0 then NegInf else PosInf)
            else Fin (if r < 0 then - (of_int m * q) else of_int m * q)))"

text \<open>\<open>RoundMVResult\<close>: the number for a mathematical value.\<close>

fun RoundMVResult :: "jsnum \<Rightarrow> jsnum" where
  "RoundMVResult (Fin r) = toDouble r"
| "RoundMVResult x = x"

definition isNaN :: "jsnum \<Rightarrow> bool" where
  "isNaN x = (x = NaN)"

text \<open>\<open>x > c\<close>, \<open>x * c\<close> and \<open>x / c\<close> for a double \<open>x\<close> and a finite positive constant \<open>c\<close>.\<close>

fun js_gt :: "jsnum \<Rightarrow> rat \<Rightarrow> bool" where
  "js_gt NaN c = False"
| "js_gt PosInf c = True"
| "js_gt NegInf c = False"
| "js_gt (Fin r) c = (r > c)"

fun js_times :: "jsnum \<Rightarrow> rat \<Rightarrow> jsnum" where
  "js_times NaN c = NaN"
| "js_times PosInf c = PosInf"
| "js_times NegInf c = NegInf"
| "js_times (Fin r) c = toDouble (r * c)"

fun js_divide :: "jsnum \<Rightarrow> rat \<Rightarrow> jsnum" where
  "js_divide NaN c = NaN"
| "js_divide PosInf c = PosInf"
| "js_divide NegInf c = NegInf"
| "js_divide (Fin r) c = toDouble (r / c)"

fun Math_floor :: "jsnum \<Rightarrow> jsnum" where
  "Math_floor (Fin r) = Fin (of_int \<lfloor>r\<rfloor>)"
| "Math_floor x = x"

text \<open>\<open>ToIntegerOrInfinity\<close> on a finite value: truncation towards zero.\<close>

definition truncate :: "rat \<Rightarrow> int" where
  "truncate r = (if 0 \<le> r then \<lfloor>r\<rfloor> else \<lceil>r\<rceil>)"

text \<open>\<open>TimeClip\<close>: a time value that is not finite, or further than 8.64e15 ms from the
  epoch, is NaN (\<open>None\<close>); any other is truncated to an integer.\<close>

fun TimeClip :: "jsnum \<Rightarrow> int option" where
  "TimeClip (Fin r) = (if \<bar>r\<bar> > 8640000000000000 then None else Some (truncate r))"
| "TimeClip x = None"

text \<open>
  Calendar fields and time values are integers or NaN: \<open>int option\<close>, with \<open>None\<close> for
  NaN. Arithmetic with NaN gives NaN; every comparison with NaN, also \<^verbatim>\<open>===\<close>, is false.
\<close>

type_synonym intnum = "int option"

fun nplus :: "intnum \<Rightarrow> intnum \<Rightarrow> intnum" where
  "nplus (Some a) (Some b) = Some (a + b)"
| "nplus a b = None"

fun nminus :: "intnum \<Rightarrow> intnum \<Rightarrow> intnum" where
  "nminus (Some a) (Some b) = Some (a - b)"
| "nminus a b = None"

fun nless :: "intnum \<Rightarrow> intnum \<Rightarrow> bool" where
  "nless (Some a) (Some b) = (a < b)"
| "nless a b = False"

fun strict_eq :: "intnum \<Rightarrow> intnum \<Rightarrow> bool" where
  "strict_eq (Some a) (Some b) = (a = b)"
| "strict_eq a b = False"

definition to_jsnum :: "intnum \<Rightarrow> jsnum" where
  "to_jsnum x = (case x of None \<Rightarrow> NaN | Some i \<Rightarrow> Fin (of_int i))"

text \<open>The remainder operator \<^verbatim>\<open>%\<close>: the result has the sign of the dividend.\<close>

definition js_rem :: "int \<Rightarrow> int \<Rightarrow> int" where
  "js_rem a b = (if a < 0 then - ((- a) mod \<bar>b\<bar>) else a mod \<bar>b\<bar>)"

text \<open>\<^verbatim>\<open>Math.ceil(a / b)\<close> on integers \<open>a\<close> and \<open>b\<close>.\<close>

definition Math_ceil_div :: "int \<Rightarrow> int \<Rightarrow> int" where
  "Math_ceil_div a b = \<lceil>(of_int a :: rat) / of_int b\<rceil>"

section \<open>The host language: strings\<close>

text \<open>
  A string is the list of the bytes of its UTF-8 encoding. The module compares strings
  for equality, tests them for emptiness and replaces ASCII tokens in them, and each of
  these gives the same result on the bytes as on the characters.
\<close>

definition isDecimalDigit :: "char \<Rightarrow> bool" where
  "isDecimalDigit c = (48 \<le> (of_char c :: int) \<and> (of_char c :: int) \<le> 57)"

definition digitChar :: "nat \<Rightarrow> char" where
  "digitChar n = ''0123456789'' ! n"

fun digitsOf :: "nat \<Rightarrow> string" where
  "digitsOf n = (if n < 10 then [digitChar n] else digitsOf (n div 10) @ [digitChar (n mod 10)])"

declare digitsOf.simps [simp del]

text \<open>\<^verbatim>\<open>n.toString()\<close> for an integer or NaN.\<close>

definition toString :: "intnum \<Rightarrow> string" where
  "toString x =
     (case x of
        None \<Rightarrow> ''NaN''
      | Some i \<Rightarrow> if i < 0 then CHR ''-'' # digitsOf (nat (- i)) else digitsOf (nat i))"

text \<open>
  \<^verbatim>\<open>s.replace(/pat/g, rep)\<close> for a pattern that is a literal, non-empty string and a
  replacement without \<^verbatim>\<open>$\<close>: the matches are found from left to right and do not
  overlap.
\<close>

fun replaceAll :: "string \<Rightarrow> string \<Rightarrow> string \<Rightarrow> string" where
  "replaceAll pat rep [] = []"
| "replaceAll pat rep (c # cs) =
     (if pat \<noteq> [] \<and> take (length pat) (c # cs) = pat
      then rep @ replaceAll pat rep (drop (length pat - 1) cs)
      else c # replaceAll pat rep cs)"

subsection \<open>Converting a string to a number\<close>

text \<open>
  \<^verbatim>\<open>Number(s)\<close> follows the grammar \<open>StringNumericLiteral\<close> of the standard: white space on
  both sides is dropped, the empty string is 0, and what remains has to be, as a whole, a
  signed decimal literal (with optional fraction and exponent), \<^verbatim>\<open>Infinity\<close>, or an unsigned
  binary, octal or hexadecimal integer. Anything else is NaN. The literals are read to
  their mathematical value, which is rounded to a double at the end.
\<close>

definition StrWhiteSpaceChars :: "string list" where
  "StrWhiteSpaceChars =
     [[CHR 0x09], [CHR 0x0A], [CHR 0x0B], [CHR 0x0C], [CHR 0x0D], [CHR 0x20],
      [CHR 0xC2, CHR 0xA0], [CHR 0xE1, CHR 0x9A, CHR 0x80],
      [CHR 0xE2, CHR 0x80, CHR 0x80], [CHR 0xE2, CHR 0x80, CHR 0x81],
      [CHR 0xE2, CHR 0x80, CHR 0x82], [CHR 0xE2, CHR 0x80, CHR 0x83],
      [CHR 0xE2, CHR 0x80, CHR 0x84], [CHR 0xE2, CHR 0x80, CHR 0x85],
      [CHR 0xE2, CHR 0x80, CHR 0x86], [CHR 0xE2, CHR 0x80, CHR 0x87],
      [CHR 0xE2, CHR 0x80, CHR 0x88], [CHR 0xE2, CHR 0x80, CHR 0x89],
      [CHR 0xE2, CHR 0x80, CHR 0x8A], [CHR 0xE2, CHR 0x80, CHR 0xA8],
      [CHR 0xE2, CHR 0x80, CHR 0xA9], [CHR 0xE2, CHR 0x80, CHR 0xAF],
      [CHR 0xE2, CHR 0x81, CHR 0x9F], [CHR 0xE3, CHR 0x80, CHR 0x80],
      [CHR 0xEF, CHR 0xBB, CHR 0xBF]]"

definition whiteSpacePrefix :: "string \<Rightarrow> nat" where
  "whiteSpacePrefix s =
     (case find (\<lambda>w. take (length w) s = w) StrWhiteSpaceChars of
        None \<Rightarrow> 0
      | Some w \<Rightarrow> length w)"

fun trimStart :: "string \<Rightarrow> string" where
  "trimStart [] = []"
| "trimStart (c # cs) =
     (let n = whiteSpacePrefix (c # cs)
      in if n = 0 then c # cs else trimStart (drop (n - 1) cs))"

definition digitValue :: "char \<Rightarrow> int" where
  "digitValue c =
     (let n = (of_char c :: int)
      in if 48 \<le> n \<and> n \<le> 57 then n - 48
         else if 97 \<le> n \<and> n \<le> 102 then n - 87
         else if 65 \<le> n \<and> n \<le> 70 then n - 55
         else 16)"

definition digitsValue :: "int \<Rightarrow> string \<Rightarrow> int" where
  "digitsValue base ds = foldl (\<lambda>acc c. acc * base + digitValue c) 0 ds"

definition isDigitOf :: "int \<Rightarrow> char \<Rightarrow> bool" where
  "isDigitOf base c = (digitValue c < base)"

text \<open>A literal that is recognised comes with the text that follows it.\<close>

definition NonDecimalIntegerLiteral :: "string \<Rightarrow> (jsnum \<times> string) option" where
  "NonDecimalIntegerLiteral s =
     (case s of
        z # x # rest \<Rightarrow>
          (let base = (if x = CHR ''x'' \<or> x = CHR ''X'' then 16
                       else if x = CHR ''o'' \<or> x = CHR ''O'' then 8
                       else if x = CHR ''b'' \<or> x = CHR ''B'' then 2
                       else (0::int));
               ds = takeWhile (isDigitOf base) rest
           in if z = CHR ''0'' \<and> base \<noteq> 0 \<and> ds \<noteq> []
              then Some (Fin (of_int (digitsValue base ds)), dropWhile (isDigitOf base) rest)
              else None)
      | _ \<Rightarrow> None)"

definition ExponentPart :: "string \<Rightarrow> (int \<times> string) option" where
  "ExponentPart s =
     (case s of
        [] \<Rightarrow> None
      | e # r \<Rightarrow>
          if e = CHR ''e'' \<or> e = CHR ''E''
          then (let neg = (r \<noteq> [] \<and> hd r = CHR ''-'');
                    r' = (if r \<noteq> [] \<and> (hd r = CHR ''+'' \<or> hd r = CHR ''-'') then tl r else r);
                    ds = takeWhile isDecimalDigit r';
                    v = digitsValue 10 ds
                in if ds = [] then None
                   else Some (if neg then - v else v, dropWhile isDecimalDigit r'))
          else None)"

definition pow10 :: "int \<Rightarrow> rat" where
  "pow10 e = (if 0 \<le> e then 10 ^ nat e else 1 / 10 ^ nat (- e))"

definition StrUnsignedDecimalLiteral :: "string \<Rightarrow> (jsnum \<times> string) option" where
  "StrUnsignedDecimalLiteral s =
     (if take 8 s = ''Infinity'' then Some (PosInf, drop 8 s)
      else
        (let ip = takeWhile isDecimalDigit s;
             r1 = dropWhile isDecimalDigit s;
             dot = (r1 \<noteq> [] \<and> hd r1 = CHR ''.'');
             fp = (if dot then takeWhile isDecimalDigit (tl r1) else []);
             r2 = (if dot then dropWhile isDecimalDigit (tl r1) else r1);
             mant = (of_int (digitsValue 10 ip) :: rat)
                    + of_int (digitsValue 10 fp) / 10 ^ length fp
         in if ip = [] \<and> fp = [] then None
            else case ExponentPart r2 of
                   None \<Rightarrow> Some (Fin mant, r2)
                 | Some (e, r3) \<Rightarrow> Some (Fin (mant * pow10 e), r3)))"

definition js_negate :: "jsnum \<Rightarrow> jsnum" where
  "js_negate x = (case x of NaN \<Rightarrow> NaN | PosInf \<Rightarrow> NegInf | NegInf \<Rightarrow> PosInf | Fin r \<Rightarrow> Fin (- r))"

definition StrDecimalLiteral :: "string \<Rightarrow> (jsnum \<times> string) option" where
  "StrDecimalLiteral s =
     (case s of
        [] \<Rightarrow> None
      | c # r \<Rightarrow>
          if c = CHR ''+'' then StrUnsignedDecimalLiteral r
          else if c = CHR ''-''
          then map_option (\<lambda>(v, r'). (js_negate v, r')) (StrUnsignedDecimalLiteral r)
          else StrUnsignedDecimalLiteral s)"

definition StringToNumber :: "string \<Rightarrow> jsnum" where
  "StringToNumber s =
     (let t = trimStart s
      in if t = [] then Fin 0
         else case (case NonDecimalIntegerLiteral t of
                      Some res \<Rightarrow> Some res
                    | None \<Rightarrow> StrDecimalLiteral t) of
                None \<Rightarrow> NaN
              | Some (v, rest) \<Rightarrow> if trimStart rest = [] then RoundMVResult v else NaN)"



section \<open>The host language: Date objects\<close>

text \<open>
  A \<^verbatim>\<open>Date\<close> object is its time value. The module never shares a \<^verbatim>\<open>Date\<close> it mutates:
  every \<^verbatim>\<open>setDate\<close> is applied to a fresh copy, so mutation is a function from the old
  object to the new one.
\<close>

datatype Date = Date (getTime: intnum)

text \<open>\<^verbatim>\<open>new Date(n)\<close> for a number \<open>n\<close>, and \<^verbatim>\<open>new Date(d)\<close> for a \<^verbatim>\<open>Date\<close> \<open>d\<close> (a copy).\<close>

definition new_Date_number :: "jsnum \<Rightarrow> Date" where
  "new_Date_number n = Date (TimeClip n)"

definition new_Date_copy :: "Date \<Rightarrow> Date" where
  "new_Date_copy d = Date (getTime d)"

text \<open>
  \<^verbatim>\<open>new Date(s)\<close> for a string \<open>s\<close>. The standard fixes \<^verbatim>\<open>Date.parse\<close> on its own
  date-time format and leaves every other string to the implementation, so the parser is
  a parameter \<open>parse\<close>: the time value it reads from the string, or \<open>None\<close> for NaN.
\<close>

definition new_Date_string :: "(string \<Rightarrow> intnum) \<Rightarrow> string \<Rightarrow> Date" where
  "new_Date_string parse s = Date (TimeClip (to_jsnum (parse s)))"

text \<open>
  \<^verbatim>\<open>new Date(year, month, date)\<close>: local midnight of that day. A year from 0 to 99 stands
  for the year 1900 later (\<open>MakeFullYear\<close>).
\<close>

definition MakeFullYear :: "int \<Rightarrow> int" where
  "MakeFullYear y = (if 0 \<le> y \<and> y \<le> 99 then 1900 + y else y)"

definition new_Date_ymd :: "int \<Rightarrow> intnum \<Rightarrow> intnum \<Rightarrow> int \<Rightarrow> Date" where
  "new_Date_ymd tza year month date =
     (case (year, month) of
        (Some y, Some m) \<Rightarrow>
          Date (TimeClip (to_jsnum (Some (UTC tza (MakeDate (MakeDay (MakeFullYear y) m date) 0)))))
      | _ \<Rightarrow> Date None)"

definition getFullYear :: "int \<Rightarrow> Date \<Rightarrow> intnum" where
  "getFullYear tza d = map_option (\<lambda>t. YearFromTime (LocalTime tza t)) (getTime d)"

definition getMonth :: "int \<Rightarrow> Date \<Rightarrow> intnum" where
  "getMonth tza d = map_option (\<lambda>t. MonthFromTime (LocalTime tza t)) (getTime d)"

definition getDate :: "int \<Rightarrow> Date \<Rightarrow> intnum" where
  "getDate tza d = map_option (\<lambda>t. DateFromTime (LocalTime tza t)) (getTime d)"

definition getDay :: "int \<Rightarrow> Date \<Rightarrow> intnum" where
  "getDay tza d = map_option (\<lambda>t. WeekDay (LocalTime tza t)) (getTime d)"

text \<open>\<^verbatim>\<open>d.setDate(dt)\<close>: the day of the month is replaced, the time of day is kept.\<close>

definition setDate :: "int \<Rightarrow> Date \<Rightarrow> intnum \<Rightarrow> Date" where
  "setDate tza d dt =
     (case (getTime d, dt) of
        (Some u, Some n) \<Rightarrow>
          (let t = LocalTime tza u;
               newDate = MakeDate (MakeDay (YearFromTime t) (MonthFromTime t) n) (TimeWithinDay t)
           in Date (TimeClip (to_jsnum (Some (UTC tza newDate)))))
      | _ \<Rightarrow> Date None)"

text \<open>Two \<^verbatim>\<open>Date\<close>s under \<^verbatim>\<open><\<close> or \<^verbatim>\<open>>\<close> are compared by their time values.\<close>

definition Date_less :: "Date \<Rightarrow> Date \<Rightarrow> bool" where
  "Date_less a b = nless (getTime a) (getTime b)"

text \<open>
  A sample of \<^verbatim>\<open>Date.parse\<close>, for the examples: the date-only form \<^verbatim>\<open>YYYY-MM-DD\<close> of the
  standard's format, which every implementation reads as midnight UTC of that day.
\<close>

definition DaysInMonth :: "int \<Rightarrow> int \<Rightarrow> int" where
  "DaysInMonth y m =
     (if m = 2 then (if DaysInYear y = 365 then 28 else 29)
      else if m = 4 \<or> m = 6 \<or> m = 9 \<or> m = 11 then 30
      else 31)"

definition parseISODate :: "string \<Rightarrow> intnum" where
  "parseISODate s =
     (if length s = 10 \<and> s ! 4 = CHR ''-'' \<and> s ! 7 = CHR ''-''
         \<and> list_all isDecimalDigit (take 4 s @ take 2 (drop 5 s) @ drop 8 s)
      then (let y = digitsValue 10 (take 4 s);
                m = digitsValue 10 (take 2 (drop 5 s));
                d = digitsValue 10 (drop 8 s)
            in if 1 \<le> m \<and> m \<le> 12 \<and> 1 \<le> d \<and> d \<le> DaysInMonth y m
               then Some (MakeDate (MakeDay y (m - 1) d) 0)
               else None)
      else None)"

section \<open>The date module\<close>

subsection \<open>Weekday names\<close>

datatype DayFormat = ko_short | ko_long | en_short | en_short_caps | en_long | en_long_caps

text \<open>The Korean names are written as the bytes of their UTF-8 encoding.\<close>

definition ko_il :: string where "ko_il = [CHR 0xEC, CHR 0x9D, CHR 0xBC]"
definition ko_wol :: string where "ko_wol = [CHR 0xEC, CHR 0x9B, CHR 0x94]"
definition ko_hwa :: string where "ko_hwa = [CHR 0xED, CHR 0x99, CHR 0x94]"
definition ko_su :: string where "ko_su = [CHR 0xEC, CHR 0x88, CHR 0x98]"
definition ko_mok :: string where "ko_mok = [CHR 0xEB, CHR 0xAA, CHR 0xA9]"
definition ko_geum :: string where "ko_geum = [CHR 0xEA, CHR 0xB8, CHR 0x88]"
definition ko_to :: string where "ko_to = [CHR 0xED, CHR 0x86, CHR 0xA0]"
definition ko_yo :: string where "ko_yo = [CHR 0xEC, CHR 0x9A, CHR 0x94]"

fun DAY_MAPPINGS :: "DayFormat \<Rightarrow> string list" where
  "DAY_MAPPINGS ko_short = [ko_il, ko_wol, ko_hwa, ko_su, ko_mok, ko_geum, ko_to]"
| "DAY_MAPPINGS ko_long =
     [ko_il @ ko_yo @ ko_il, ko_wol @ ko_yo @ ko_il, ko_hwa @ ko_yo @ ko_il,
      ko_su @ ko_yo @ ko_il, ko_mok @ ko_yo @ ko_il, ko_geum @ ko_yo @ ko_il,
      ko_to @ ko_yo @ ko_il]"
| "DAY_MAPPINGS en_short = [''sun'', ''mon'', ''tue'', ''wed'', ''thu'', ''fri'', ''sat'']"
| "DAY_MAPPINGS en_short_caps = [''SUN'', ''MON'', ''TUE'', ''WED'', ''THU'', ''FRI'', ''SAT'']"
| "DAY_MAPPINGS en_long =
     [''sunday'', ''monday'', ''tuesday'', ''wednesday'', ''thursday'', ''friday'', ''saturday'']"
| "DAY_MAPPINGS en_long_caps =
     [''SUNDAY'', ''MONDAY'', ''TUESDAY'', ''WEDNESDAY'', ''THURSDAY'', ''FRIDAY'', ''SATURDAY'']"

text \<open>\<^verbatim>\<open>Object.keys(DAY_MAPPINGS)\<close>: the keys in the order they are written.\<close>

definition DAY_MAPPINGS_keys :: "DayFormat list" where
  "DAY_MAPPINGS_keys = [ko_short, ko_long, en_short, en_short_caps, en_long, en_long_caps]"

text \<open>\<^verbatim>\<open>xs.indexOf(x)\<close>: the first index of \<open>x\<close>, or -1.\<close>

fun indexOf :: "'a list \<Rightarrow> 'a \<Rightarrow> int" where
  "indexOf [] x = - 1"
| "indexOf (y # ys) x =
     (if y = x then 0 else (let i = indexOf ys x in if i = - 1 then - 1 else i + 1))"

text \<open>\<open>getDayOfWeek\<close>: an index that is NaN reads \<^verbatim>\<open>undefined\<close> from the table (\<open>None\<close>).\<close>

definition getDayOfWeek :: "int \<Rightarrow> Date \<Rightarrow> DayFormat \<Rightarrow> string option" where
  "getDayOfWeek tza date format =
     (case getDay tza date of
        None \<Rightarrow> None
      | Some dayIndex \<Rightarrow> Some (DAY_MAPPINGS format ! nat dayIndex))"

text \<open>\<open>getDayIndex\<close>: the loop over the formats, leaving at the first table that has the name.
  \<open>None\<close> is \<^verbatim>\<open>null\<close>.\<close>

fun getDayIndex_loop :: "DayFormat list \<Rightarrow> string \<Rightarrow> int option" where
  "getDayIndex_loop [] day = None"
| "getDayIndex_loop (format # formats) day =
     (let days = DAY_MAPPINGS format; index = indexOf days day
      in if index \<noteq> - 1 then Some index else getDayIndex_loop formats day)"

definition getDayIndex :: "string \<Rightarrow> int option" where
  "getDayIndex day = getDayIndex_loop DAY_MAPPINGS_keys day"

text \<open>
  \<open>getNextDayOfWeek\<close>. The default arguments (the current time, forward search) are passed
  by the caller here. With an invalid base date the weekday is NaN, so is the number of
  days to add, and the result is an invalid \<^verbatim>\<open>Date\<close> (not \<^verbatim>\<open>null\<close>).
\<close>

definition daysToAdd_of :: "int \<Rightarrow> int \<Rightarrow> bool \<Rightarrow> int" where
  "daysToAdd_of targetDayIndex currentDayIndex searchForward =
     (if searchForward
      then (let daysToAdd = js_rem (targetDayIndex - currentDayIndex + 7) 7
            in if daysToAdd = 0 then 7 else daysToAdd)
      else (let daysToAdd = js_rem (targetDayIndex - currentDayIndex - 7) 7
            in if daysToAdd = 0 then - 7 else daysToAdd))"

definition getNextDayOfWeek :: "int \<Rightarrow> string \<Rightarrow> Date \<Rightarrow> bool \<Rightarrow> Date option" where
  "getNextDayOfWeek tza targetDay baseDate searchForward =
     (case getDayIndex targetDay of
        None \<Rightarrow> None
      | Some targetDayIndex \<Rightarrow>
          (let result = new_Date_copy baseDate;
               currentDayIndex = getDay tza result;
               daysToAdd = map_option (\<lambda>c. daysToAdd_of targetDayIndex c searchForward)
                             currentDayIndex
           in Some (setDate tza result (nplus (getDate tza result) daysToAdd))))"

subsection \<open>Helpers on dates\<close>

definition subtractDays :: "int \<Rightarrow> Date \<Rightarrow> int \<Rightarrow> Date" where
  "subtractDays tza date days =
     (let result = new_Date_copy date
      in setDate tza result (nminus (getDate tza result) (Some days)))"

definition isSameDay :: "int \<Rightarrow> Date \<Rightarrow> Date \<Rightarrow> bool" where
  "isSameDay tza date1 date2 =
     (strict_eq (getFullYear tza date1) (getFullYear tza date2) \<and>
      strict_eq (getMonth tza date1) (getMonth tza date2) \<and>
      strict_eq (getDate tza date1) (getDate tza date2))"

definition fromUnixTime :: "jsnum \<Rightarrow> Date" where
  "fromUnixTime timestamp = new_Date_number (js_times timestamp 1000)"

definition isValidDate :: "Date \<Rightarrow> bool" where
  "isValidDate date = (\<not> isNaN (to_jsnum (getTime date)))"

subsection \<open>Formatting\<close>

definition pad2 :: "intnum \<Rightarrow> string" where
  "pad2 num = (if nless num (Some 10) then CHR ''0'' # toString num else toString num)"

definition formatDate :: "int \<Rightarrow> Date \<Rightarrow> string \<Rightarrow> string" where
  "formatDate tza date formatStr =
     (let year = getFullYear tza date;
          month = nplus (getMonth tza date) (Some 1);
          day = getDate tza date
      in replaceAll ''d'' (toString day)
           (replaceAll ''dd'' (pad2 day)
             (replaceAll ''M'' (toString month)
               (replaceAll ''MM'' (pad2 month)
                 (replaceAll ''yyyy'' (toString year) formatStr)))))"

subsection \<open>Week of the month\<close>

text \<open>
  \<open>getWeekOfMonth\<close>. When the day of the month or the number of days in the first week is
  NaN, the comparison \<^verbatim>\<open>dayOfMonth > daysInFirstWeek\<close> is false and the result is 1.
\<close>

definition getWeekOfMonth :: "int \<Rightarrow> Date \<Rightarrow> int" where
  "getWeekOfMonth tza date =
     (let firstDayOfMonth = new_Date_ymd tza (getFullYear tza date) (getMonth tza date) 1;
          dayOfMonth = getDate tza date;
          firstDayOfWeek = getDay tza firstDayOfMonth;
          daysInFirstWeek = nminus (Some 7) firstDayOfWeek
      in case (dayOfMonth, daysInFirstWeek) of
           (Some dm, Some fw) \<Rightarrow> if dm > fw then Math_ceil_div (dm - fw) 7 + 1 else 1
         | _ \<Rightarrow> 1)"

subsection \<open>The date picker\<close>

text \<open>
  \<open>isDateDisabled\<close> and \<open>getDefaultOpenMonth\<close>. An empty string is falsy and stands for
  \<open>today\<close>, which the caller passes (its default is the current time).
\<close>

definition isDateDisabled :: "int \<Rightarrow> (string \<Rightarrow> intnum) \<Rightarrow> Date \<Rightarrow> string \<Rightarrow> string \<Rightarrow> Date \<Rightarrow> bool" where
  "isDateDisabled tza parse date startDateStr endDateStr today =
     (let start = (if startDateStr \<noteq> [] then new_Date_string parse startDateStr else today);
          end = (if endDateStr \<noteq> [] then new_Date_string parse endDateStr else today);
          endIsToday = isSameDay tza end today;
          isStartSameAsEnd = isSameDay tza start end
      in if isStartSameAsEnd then \<not> isSameDay tza date start
         else if endIsToday then \<not> isSameDay tza date today
         else Date_less date start \<or> Date_less end date
              \<or> Date_less date (subtractDays tza today 1))"

definition getDefaultOpenMonth :: "(string \<Rightarrow> intnum) \<Rightarrow> string \<Rightarrow> string \<Rightarrow> Date \<Rightarrow> Date" where
  "getDefaultOpenMonth parse startDateStr endDateStr today =
     (let start = (if startDateStr \<noteq> [] then new_Date_string parse startDateStr else today);
          end = (if endDateStr \<noteq> [] then new_Date_string parse endDateStr else today)
      in if Date_less start today then start
         else if Date_less today end then end
         else today)"

subsection \<open>Safe formatting and epoch conversions\<close>

text \<open>
  The argument of \<open>formatSafeDate\<close> is a string, a number or \<^verbatim>\<open>undefined\<close>. A number is
  given by a mathematical value \<open>n\<close> and is the double nearest to it, as for a numeric
  literal of the language.
\<close>

datatype DateValue = Undefined | NumberValue jsnum | StringValue string

fun Number :: "DateValue \<Rightarrow> jsnum" where
  "Number Undefined = NaN"
| "Number (NumberValue n) = RoundMVResult n"
| "Number (StringValue s) = StringToNumber s"

text \<open>\<^verbatim>\<open>!v\<close>: \<^verbatim>\<open>undefined\<close>, the numbers 0 and NaN, and the empty string are falsy.\<close>

fun falsy :: "DateValue \<Rightarrow> bool" where
  "falsy Undefined = True"
| "falsy (NumberValue n) = (RoundMVResult n = NaN \<or> RoundMVResult n = Fin 0)"
| "falsy (StringValue s) = (s = [])"

fun typeof_is_number :: "DateValue \<Rightarrow> bool" where
  "typeof_is_number (NumberValue n) = True"
| "typeof_is_number v = False"

fun new_Date_value :: "(string \<Rightarrow> intnum) \<Rightarrow> DateValue \<Rightarrow> Date" where
  "new_Date_value parse Undefined = Date None"
| "new_Date_value parse (NumberValue n) = new_Date_number (RoundMVResult n)"
| "new_Date_value parse (StringValue s) = new_Date_string parse s"

text \<open>
  \<open>formatSafeDate\<close>. Nothing inside its \<^verbatim>\<open>try\<close> block throws on these arguments, so the
  \<^verbatim>\<open>catch\<close> branch, which would return the placeholder too, is never taken.
\<close>

definition formatSafeDate :: "int \<Rightarrow> (string \<Rightarrow> intnum) \<Rightarrow> DateValue \<Rightarrow> string \<Rightarrow> string" where
  "formatSafeDate tza parse dateValue formatString =
     (if falsy dateValue then ''-''
      else
        (let date =
               (if typeof_is_number dateValue \<or> \<not> isNaN (Number dateValue)
                then (let timestamp = Number dateValue
                      in if js_gt timestamp 1000000000000
                         then new_Date_number timestamp
                         else fromUnixTime timestamp)
                else new_Date_value parse dateValue)
         in if \<not> isValidDate date then ''-''
            else formatDate tza date formatString))"

definition dateToUnixEpoch :: "Date \<Rightarrow> jsnum" where
  "dateToUnixEpoch date = Math_floor (js_divide (to_jsnum (getTime date)) 1000)"

definition unixEpochToMilliseconds :: "jsnum \<Rightarrow> jsnum" where
  "unixEpochToMilliseconds epochSeconds = js_times epochSeconds 1000"

definition unixEpochToDate :: "jsnum \<Rightarrow> Date" where
  "unixEpochToDate epochSeconds = new_Date_number (js_times epochSeconds 1000)"

definition epochMillisecondsToDate :: "jsnum \<Rightarrow> Date" where
  "epochMillisecondsToDate epochMilliseconds = new_Date_number epochMilliseconds"


section \<open>Notions of the specification\<close>

text \<open>
  The specification speaks of two dates being the same calendar day: both are valid and
  their local times fall on the same day.
\<close>

definition sameCalendarDay :: "int \<Rightarrow> Date \<Rightarrow> Date \<Rightarrow> bool" where
  "sameCalendarDay tza d1 d2 =
     (case (getTime d1, getTime d2) of
        (Some a, Some b) \<Rightarrow> Day (LocalTime tza a) = Day (LocalTime tza b)
      | _ \<Rightarrow> False)"

text \<open>A bound of the date range that is missing (the empty string) resolves to today.\<close>

definition resolveBound :: "(string \<Rightarrow> intnum) \<Rightarrow> Date \<Rightarrow> string \<Rightarrow> Date" where
  "resolveBound parse today s = (if s = [] then today else new_Date_string parse s)"

text \<open>
  The week of the month as the specification defines it, from the day of the month and
  the weekday index of the first day of that month; and the weekday of the first day of
  the month that a local time \<open>t\<close> lies in, which is the day \<open>DateFromTime t - 1\<close> days
  before \<open>t\<close>.
\<close>

definition weekOfMonth_spec :: "int \<Rightarrow> int \<Rightarrow> int" where
  "weekOfMonth_spec dayOfMonth firstDayWeekdayIndex =
     (let daysInFirstWeek = 7 - firstDayWeekdayIndex
      in if dayOfMonth \<le> daysInFirstWeek then 1
         else \<lceil>(of_int (dayOfMonth - daysInFirstWeek) :: rat) / 7\<rceil> + 1)"

definition firstOfMonthWeekday :: "int \<Rightarrow> int" where
  "firstOfMonthWeekday t = WeekDay (t - (DateFromTime t - 1) * msPerDay)"

text \<open>
  \<open>safeFormatDate\<close> in the words of the specification. A value is numeric-like when it is a
  number, or a string that parses fully as a number; an epoch value greater than
  1,000,000,000,000 is in milliseconds, any other in seconds.
\<close>

definition numericLike :: "DateValue \<Rightarrow> bool" where
  "numericLike v =
     (case v of
        Undefined \<Rightarrow> False
      | NumberValue n \<Rightarrow> True
      | StringValue s \<Rightarrow> StringToNumber s \<noteq> NaN)"

definition epochToDate :: "jsnum \<Rightarrow> Date" where
  "epochToDate n =
     (if js_gt n 1000000000000 then epochMillisecondsToDate n else unixEpochToDate n)"

definition safeFormatDate_spec :: "int \<Rightarrow> (string \<Rightarrow> intnum) \<Rightarrow> DateValue \<Rightarrow> string \<Rightarrow> string" where
  "safeFormatDate_spec tza parse v pattern =
     (if falsy v then ''-''
      else
        (let date =
               (if numericLike v then epochToDate (Number v)
                else case v of StringValue s \<Rightarrow> new_Date_string parse s | _ \<Rightarrow> Date None)
         in if getTime date = None then ''-'' else formatDate tza date pattern))"

text \<open>
  \<open>formatPattern\<close> in the words of the specification: the pattern is read once from left to
  right and every token is replaced by its value, a two-letter token before its
  single-letter counterpart. The five values are parameters.
\<close>

fun formatPattern_spec :: "string \<Rightarrow> string \<Rightarrow> string \<Rightarrow> string \<Rightarrow> string \<Rightarrow> string \<Rightarrow> string" where
  "formatPattern_spec yyyy MM M dd d [] = []"
| "formatPattern_spec yyyy MM M dd d (c # cs) =
     (if take 4 (c # cs) = ''yyyy'' then yyyy @ formatPattern_spec yyyy MM M dd d (drop 3 cs)
      else if take 2 (c # cs) = ''MM'' then MM @ formatPattern_spec yyyy MM M dd d (drop 1 cs)
      else if c = CHR ''M'' then M @ formatPattern_spec yyyy MM M dd d cs
      else if take 2 (c # cs) = ''dd'' then dd @ formatPattern_spec yyyy MM M dd d (drop 1 cs)
      else if c = CHR ''d'' then d @ formatPattern_spec yyyy MM M dd d cs
      else c # formatPattern_spec yyyy MM M dd d cs)"

text \<open>A replacement text that contains none of the token letters and is not empty.\<close>

definition plain :: "string \<Rightarrow> bool" where
  "plain r = (r \<noteq> [] \<and> CHR ''y'' \<notin> set r \<and> CHR ''M'' \<notin> set r \<and> CHR ''d'' \<notin> set r)"

text \<open>The five replacements of \<open>formatDate\<close>, in its order, with the values as parameters.\<close>

definition passes :: "string \<Rightarrow> string \<Rightarrow> string \<Rightarrow> string \<Rightarrow> string \<Rightarrow> string \<Rightarrow> string" where
  "passes Y MM M1 DD D1 s =
     replaceAll ''d'' D1 (replaceAll ''dd'' DD (replaceAll ''M'' M1
       (replaceAll ''MM'' MM (replaceAll ''yyyy'' Y s))))"

section \<open>Facts about the calendar arithmetic\<close>

lemma int_div_succ:
  fixes a k :: int
  assumes k: "0 < k"
  shows "(a + 1) div k = a div k + (if (a + 1) mod k = 0 then 1 else 0)"
proof (cases "a mod k = k - 1")
  case True
  have "a = k * (a div k) + a mod k" by simp
  then have "a = k * (a div k) + (k - 1)" using True by simp
  then have e: "a + 1 = k * (a div k + 1) + 0" by (simp add: algebra_simps)
  have "(a + 1) div k = a div k + 1" using int_div_pos_eq[OF e] k by simp
  moreover have "(a + 1) mod k = 0" using int_mod_pos_eq[OF e] k by simp
  ultimately show ?thesis by simp
next
  case False
  have b: "0 \<le> a mod k" "a mod k < k" using k by simp_all
  with False have lt: "a mod k + 1 < k" by simp
  have "a = k * (a div k) + a mod k" by simp
  then have e: "a + 1 = k * (a div k) + (a mod k + 1)" by simp
  have "(a + 1) div k = a div k" using int_div_pos_eq[OF e _ lt] b by simp
  moreover have "(a + 1) mod k = a mod k + 1" using int_mod_pos_eq[OF e _ lt] b by simp
  ultimately show ?thesis using b by simp
qed

lemma int_div_lower: "(0::int) < k \<Longrightarrow> a - (k - 1) \<le> k * (a div k)"
proof -
  assume k: "0 < k"
  have "a = k * (a div k) + a mod k" by simp
  moreover have "a mod k < k" using k by simp
  ultimately show ?thesis by linarith
qed

lemma int_div_upper: "(0::int) < k \<Longrightarrow> k * (a div k) \<le> a"
proof -
  assume k: "0 < k"
  have "a = k * (a div k) + a mod k" by simp
  moreover have "0 \<le> a mod k" using k by simp
  ultimately show ?thesis by linarith
qed

lemma int_div_shift:
  fixes a k c :: int
  shows "k \<noteq> 0 \<Longrightarrow> (a - k * c) div k = a div k - c"
  by (metis add.commute diff_add_cancel div_mult_self2 add_diff_cancel_right')

lemma int_mod_shift:
  fixes a k c :: int
  shows "(a - k * c) mod k = a mod k"
  by (metis mod_diff_right_eq mod_mult_self1_is_0 diff_zero)

text \<open>The day number of 1 January, counted from the year 1601, where a 400-year cycle starts.\<close>

lemma DayFromYear_from_1601:
  "DayFromYear y =
     365 * (y - 1970) + (y - 1601) div 4 - (y - 1601) div 100 + (y - 1601) div 400 - 89"
proof -
  have 1: "(y - 1969) div 4 = (y - 1601) div 4 - 92"
    using int_div_shift[of 4 "y - 1601" 92] by simp
  have 2: "(y - 1901) div 100 = (y - 1601) div 100 - 3"
    using int_div_shift[of 100 "y - 1601" 3] by simp
  show ?thesis unfolding DayFromYear_def 1 2 by simp
qed

text \<open>Consecutive years are \<open>DaysInYear\<close> apart.\<close>

lemma DayFromYear_step: "DayFromYear (y + 1) = DayFromYear y + DaysInYear y"
proof -
  have m4: "(y - 1600) mod 4 = y mod 4" using int_mod_shift[of y 4 400] by simp
  have m100: "(y - 1600) mod 100 = y mod 100" using int_mod_shift[of y 100 16] by simp
  have m400: "(y - 1600) mod 400 = y mod 400" using int_mod_shift[of y 400 4] by simp
  have d4: "(y - 1600) div 4 = (y - 1601) div 4 + (if y mod 4 = 0 then 1 else 0)"
    using int_div_succ[of 4 "y - 1601"] m4 by simp
  have d100: "(y - 1600) div 100 = (y - 1601) div 100 + (if y mod 100 = 0 then 1 else 0)"
    using int_div_succ[of 100 "y - 1601"] m100 by simp
  have d400: "(y - 1600) div 400 = (y - 1601) div 400 + (if y mod 400 = 0 then 1 else 0)"
    using int_div_succ[of 400 "y - 1601"] m400 by simp
  have i1: "y mod 400 = 0 \<Longrightarrow> y mod 100 = 0"
    using mod_mod_cancel[of 100 400 y] by simp
  have i2: "y mod 100 = 0 \<Longrightarrow> y mod 4 = 0"
    using mod_mod_cancel[of 4 100 y] by simp
  have "DayFromYear (y + 1) =
          365 * (y - 1969) + (y - 1600) div 4 - (y - 1600) div 100 + (y - 1600) div 400 - 89"
    using DayFromYear_from_1601[of "y + 1"] by simp
  then have "DayFromYear (y + 1) =
          DayFromYear y + 365 + (if y mod 4 = 0 then 1 else 0)
            - (if y mod 100 = 0 then 1 else 0) + (if y mod 400 = 0 then 1 else 0)"
    unfolding d4 d100 d400 DayFromYear_from_1601[of y] by simp
  moreover have "DaysInYear y =
          365 + (if y mod 4 = 0 then 1 else 0)
            - (if y mod 100 = 0 then 1 else 0) + (if y mod 400 = 0 then 1 else 0)"
    unfolding DaysInYear_def using i1 i2
    by (cases "y mod 4 = 0"; cases "y mod 100 = 0"; cases "y mod 400 = 0") simp_all
  ultimately show ?thesis by simp
qed

text \<open>The estimate in \<open>YearFromDay\<close> is at most one year off, in either direction.\<close>

lemma estimate_lo_arith:
  fixes d n a b c :: int
  assumes "146097 * n \<le> d * 400" "4 * a \<le> n" "n - 31 \<le> 100 * b" "400 * c \<le> n + 368"
  shows "365 * (n - 1) + a - b + c \<le> d"
proof -
  have 1: "400 * a \<le> 100 * n" using assms(2) by simp
  have 2: "4 * n - 124 \<le> 400 * b" using assms(3) by simp
  have "400 * (365 * (n - 1) + a - b + c) \<le> 400 * d"
    using assms(1,4) 1 2 by (simp add: algebra_simps)
  then show ?thesis by simp
qed

lemma estimate_hi_arith:
  fixes d n a b c :: int
  assumes "d * 400 - 146096 \<le> 146097 * n" "n \<le> 4 * a" "100 * b \<le> n + 71" "n - 28 \<le> 400 * c"
  shows "d < 365 * (n + 2) + a - b + c"
proof -
  have 1: "100 * n \<le> 400 * a" using assms(2) by simp
  have 2: "400 * b \<le> 4 * n + 284" using assms(3) by simp
  have "400 * d < 400 * (365 * (n + 2) + a - b + c)"
    using assms(1,4) 1 2 by (simp add: algebra_simps)
  then show ?thesis by simp
qed

lemma DayFromYear_estimate_lo:
  fixes d :: int
  defines "n \<equiv> (d * 400) div 146097"
  shows "DayFromYear (1970 + n - 1) \<le> d"
proof -
  have n: "146097 * n \<le> d * 400" unfolding n_def by (rule int_div_upper) simp
  have a: "4 * (n div 4) \<le> n" by (rule int_div_upper) simp
  have b: "n - 31 \<le> 100 * ((n + 68) div 100)" using int_div_lower[of 100 "n + 68"] by simp
  have c: "400 * ((n + 368) div 400) \<le> n + 368" by (rule int_div_upper) simp
  have "DayFromYear (1970 + n - 1) =
          365 * (n - 1) + n div 4 - (n + 68) div 100 + (n + 368) div 400"
    by (simp add: DayFromYear_def algebra_simps)
  with estimate_lo_arith[OF n a b c] show ?thesis by simp
qed

lemma DayFromYear_estimate_hi:
  fixes d :: int
  defines "n \<equiv> (d * 400) div 146097"
  shows "d < DayFromYear (1970 + n + 2)"
proof -
  have n: "d * 400 - 146096 \<le> 146097 * n"
    unfolding n_def using int_div_lower[of 146097 "d * 400"] by simp
  have a: "n \<le> 4 * ((n + 3) div 4)" using int_div_lower[of 4 "n + 3"] by simp
  have b: "100 * ((n + 71) div 100) \<le> n + 71" by (rule int_div_upper) simp
  have c: "n - 28 \<le> 400 * ((n + 371) div 400)" using int_div_lower[of 400 "n + 371"] by simp
  have "DayFromYear (1970 + n + 2) =
          365 * (n + 2) + (n + 3) div 4 - (n + 71) div 100 + (n + 371) div 400"
    by (simp add: DayFromYear_def algebra_simps)
  with estimate_hi_arith[OF n a b c] show ?thesis by simp
qed

text \<open>\<open>YearFromDay\<close> is the year the standard asks for: the one whose days include \<open>d\<close>.\<close>

lemma YearFromDay_bounds:
  "DayFromYear (YearFromDay d) \<le> d \<and> d < DayFromYear (YearFromDay d + 1)"
proof -
  define y where "y = 1970 + (d * 400) div 146097"
  have lo: "DayFromYear (y - 1) \<le> d"
    using DayFromYear_estimate_lo[of d] by (simp add: y_def)
  have hi: "d < DayFromYear (y + 2)"
    using DayFromYear_estimate_hi[of d] by (simp add: y_def)
  have "YearFromDay d =
          (if d < DayFromYear y then y - 1 else if DayFromYear (y + 1) \<le> d then y + 1 else y)"
    by (simp add: YearFromDay_def y_def Let_def)
  with lo hi show ?thesis by (simp add: algebra_simps)
qed

lemma DaysInYear_pos: "0 < DaysInYear y"
  by (simp add: DaysInYear_def)

lemma DayFromYear_mono: "y \<le> z \<Longrightarrow> DayFromYear y \<le> DayFromYear z"
proof (induction z rule: int_ge_induct)
  case base
  show ?case by simp
next
  case (step i)
  then show ?case using DayFromYear_step[of i] DaysInYear_pos[of i] by simp
qed

text \<open>And it is the largest year that begins on or before day \<open>d\<close>.\<close>

lemma YearFromDay_largest: "DayFromYear y \<le> d \<Longrightarrow> y \<le> YearFromDay d"
proof (rule ccontr)
  assume a: "DayFromYear y \<le> d" and "\<not> y \<le> YearFromDay d"
  then have "YearFromDay d + 1 \<le> y" by simp
  then have "DayFromYear (YearFromDay d + 1) \<le> DayFromYear y" by (rule DayFromYear_mono)
  with a YearFromDay_bounds[of d] show False by simp
qed

lemma TimeClip_of_int:
  "TimeClip (Fin (of_int t)) = (if \<bar>t\<bar> > 8640000000000000 then None else Some t)"
proof -
  have "\<bar>(of_int t :: rat)\<bar> = of_int \<bar>t\<bar>" by simp
  moreover have "((of_int \<bar>t\<bar> :: rat) > 8640000000000000) = (\<bar>t\<bar> > 8640000000000000)"
    by (metis of_int_less_iff of_int_numeral)
  moreover have "truncate (of_int t) = t" by (simp add: truncate_def)
  ultimately show ?thesis by simp
qed

section \<open>Rounding to doubles\<close>

lemma roundHalfEven_of_int: "roundHalfEven (of_int k) = k"
  by (simp add: roundHalfEven_def)

lemma pow2_nonpos: "e \<le> 0 \<Longrightarrow> pow2 e = 1 / 2 ^ nat (- e)"
  by (cases "e = 0") (simp_all add: pow2_def)

lemma bitlen_le_53:
  assumes "0 < m" "m < 2 ^ 53"
  shows "bitlen m \<le> 53"
proof (rule ccontr)
  assume "\<not> bitlen m \<le> 53"
  then have "53 \<le> nat (bitlen m - 1)" by simp
  then have "(2::int) ^ 53 \<le> 2 ^ nat (bitlen m - 1)" by (rule power_increasing) simp
  with bitlen_bounds[OF assms(1)] assms(2) show False by simp
qed

lemma toDouble_pos_int:
  assumes "0 < m" "m < 2 ^ 53"
  shows "toDouble (of_int m) = Fin (of_int m)" "toDouble (- of_int m) = Fin (- of_int m)"
proof -
  define e where "e = max (ilog2 (of_int m)) (- 1022)"
  have one: "(1::rat) \<le> of_int m" using assms(1) by simp
  then have "ilog2 (of_int m) = bitlen m - 1" by (simp add: ilog2_def)
  then have e: "e \<le> 52" using bitlen_le_53[OF assms] by (simp add: e_def)
  define k where "k = nat (52 - e)"
  have q: "pow2 (e - 52) = 1 / 2 ^ k" using e pow2_nonpos[of "e - 52"] by (simp add: k_def)
  have d: "(of_int m :: rat) / pow2 (e - 52) = of_int (m * 2 ^ k)" by (simp add: q)
  have r: "roundHalfEven ((of_int m :: rat) / pow2 (e - 52)) = m * 2 ^ k"
    unfolding d by (rule roundHalfEven_of_int)
  have v: "of_int (m * 2 ^ k) * pow2 (e - 52) = (of_int m :: rat)" by (simp add: q)
  have no: "\<not> (1024 \<le> e \<or> (e = 1023 \<and> m * 2 ^ k = 2 ^ 53))" using e by simp
  have nz: "(of_int m :: rat) \<noteq> 0" "\<not> (of_int m :: rat) < 0"
    "\<bar>(of_int m :: rat)\<bar> = of_int m"
    using assms(1) by simp_all
  show "toDouble (of_int m) = Fin (of_int m)"
    unfolding toDouble_def Let_def nz e_def[symmetric] r using nz no v by simp
  have nz': "- (of_int m :: rat) \<noteq> 0" "- (of_int m :: rat) < 0"
    "\<bar>- (of_int m :: rat)\<bar> = of_int m"
    using assms(1) by simp_all
  show "toDouble (- of_int m) = Fin (- of_int m)"
    unfolding toDouble_def Let_def nz' e_def[symmetric] r using nz' no v by simp
qed

text \<open>Every integer below \<open>2^53\<close> in magnitude is a double: rounding leaves it as it is.\<close>

lemma toDouble_of_int:
  assumes "\<bar>n\<bar> < 2 ^ 53"
  shows "toDouble (of_int n) = Fin (of_int n)"
proof (cases n "0::int" rule: linorder_cases)
  case equal
  then show ?thesis by (simp add: toDouble_def)
next
  case greater
  then show ?thesis using toDouble_pos_int(1)[of n] assms by simp
next
  case less
  then have "0 < - n" "- n < 2 ^ 53" using assms by simp_all
  then show ?thesis using toDouble_pos_int(2)[of "- n"] by simp
qed

text \<open>From \<open>2^1024\<close> on, rounding gives the infinity.\<close>

lemma toDouble_overflow:
  assumes "2 ^ 1024 \<le> r"
  shows "toDouble r = PosInf"
proof -
  have p: "(1::rat) \<le> 2 ^ 1024" by (rule one_le_power) simp
  have r1: "1 \<le> r" using assms p by (rule order_trans[rotated])
  have "(of_int (2 ^ 1024) :: rat) \<le> r" using assms by simp
  then have f: "(2::int) ^ 1024 \<le> \<lfloor>r\<rfloor>" by (simp only: le_floor_iff)
  have f0: "0 < \<lfloor>r\<rfloor>" using r1 by simp
  have b: "1025 \<le> bitlen \<lfloor>r\<rfloor>"
  proof (rule ccontr)
    assume "\<not> 1025 \<le> bitlen \<lfloor>r\<rfloor>"
    then have "nat (bitlen \<lfloor>r\<rfloor>) \<le> 1024" by simp
    then have "(2::int) ^ nat (bitlen \<lfloor>r\<rfloor>) \<le> 2 ^ 1024" by (rule power_increasing) simp
    with bitlen_bounds[OF f0] f show False by linarith
  qed
  have e: "1024 \<le> ilog2 r" using b r1 by (simp add: ilog2_def)
  then have m: "max (ilog2 r) (- 1022) = ilog2 r" by simp
  have nz: "r \<noteq> 0" "\<not> r < 0" "\<bar>r\<bar> = r" using r1 by simp_all
  show ?thesis unfolding toDouble_def Let_def nz m using nz e by simp
qed

lemma js_times_overflow: "js_times (Fin (2 ^ 1015)) 1000 = PosInf"
proof -
  have "(2::rat) ^ 1024 = 2 ^ 1015 * 2 ^ 9" by (simp only: power_add[symmetric]) simp
  also have "\<dots> \<le> 2 ^ 1015 * 1000" by (rule mult_left_mono) simp_all
  finally show ?thesis by (simp only: js_times.simps toDouble_overflow)
qed

text \<open>
  Values that are not doubles are rounded: the literal \<^verbatim>\<open>8640000000000000.4\<close> is the
  number 8640000000000000, the literal \<^verbatim>\<open>1000000000000.00001\<close> is the number
  1000000000000, and \<^verbatim>\<open>4.35 * 1000\<close> is 4350.
\<close>

lemma Number_rounded:
  "Number (StringValue ''8640000000000000.4'') = Fin 8640000000000000
   \<and> Number (StringValue ''1000000000000.00001'') = Fin 1000000000000
   \<and> js_times (Number (NumberValue (Fin (435 / 100)))) 1000 = Fin 4350"
  by code_simp

lemma js_times_1000_int:
  assumes "\<bar>s * 1000\<bar> < 2 ^ 53"
  shows "js_times (Fin (of_int s)) 1000 = Fin (of_int (s * 1000))"
proof -
  have "js_times (Fin (of_int s)) 1000 = toDouble (of_int (s * 1000))" by simp
  then show ?thesis using toDouble_of_int[OF assms] by simp
qed

lemma js_divide_1000_int:
  assumes "\<bar>s\<bar> < 2 ^ 53"
  shows "js_divide (Fin (of_int (s * 1000))) 1000 = Fin (of_int s)"
proof -
  have "js_divide (Fin (of_int (s * 1000))) 1000 = toDouble (of_int s)" by simp
  then show ?thesis using toDouble_of_int[OF assms] by simp
qed

section \<open>Epoch conversions\<close>

text \<open>
  Claim C8. For every integer number of seconds \<open>s\<close> whose time value \<open>s * 1000\<close> lies in
  the range a \<^verbatim>\<open>Date\<close> can hold, converting \<open>s\<close> to a date with \<open>unixEpochToDate\<close> and back
  with \<open>dateToUnixEpoch\<close> gives \<open>s\<close> again.
\<close>

theorem dateToUnixEpoch_unixEpochToDate:
  assumes "\<bar>s * 1000\<bar> \<le> 8640000000000000"
  shows "dateToUnixEpoch (unixEpochToDate (Fin (of_int s))) = Fin (of_int s)"
proof -
  have b1: "\<bar>s * 1000\<bar> < 2 ^ 53" using assms by simp
  have b2: "\<bar>s\<bar> < 2 ^ 53" using assms by (simp add: abs_mult)
  have "unixEpochToDate (Fin (of_int s)) = Date (Some (s * 1000))"
    unfolding unixEpochToDate_def new_Date_number_def js_times_1000_int[OF b1] TimeClip_of_int
    using assms by simp
  then have "dateToUnixEpoch (unixEpochToDate (Fin (of_int s)))
               = Math_floor (js_divide (Fin (of_int (s * 1000))) 1000)"
    by (simp add: dateToUnixEpoch_def to_jsnum_def)
  also have "\<dots> = Math_floor (Fin (of_int s))"
    unfolding js_divide_1000_int[OF b2] ..
  also have "\<dots> = Fin (of_int s)" by simp
  finally show ?thesis .
qed

text \<open>An instance: midnight UTC of 2025-04-24.\<close>

theorem dateToUnixEpoch_unixEpochToDate_witness:
  "\<bar>(1745452800::int) * 1000\<bar> \<le> 8640000000000000 \<and>
   dateToUnixEpoch (unixEpochToDate (Fin 1745452800)) = Fin 1745452800"
  using dateToUnixEpoch_unixEpochToDate [of 1745452800] by simp

section \<open>Weekday names\<close>

lemma nat_less_7_cases:
  "i < 7 \<Longrightarrow> i = 0 \<or> i = 1 \<or> i = 2 \<or> i = 3 \<or> i = 4 \<or> i = 5 \<or> i = (6::nat)"
  by arith

lemmas ko_defs =
  ko_il_def ko_wol_def ko_hwa_def ko_su_def ko_mok_def ko_geum_def ko_to_def ko_yo_def

lemma DAY_MAPPINGS_found:
  assumes "i < 7"
  shows "getDayIndex (DAY_MAPPINGS format ! i) = Some (int i)"
proof -
  from assms consider "i = 0" | "i = 1" | "i = 2" | "i = 3" | "i = 4" | "i = 5" | "i = 6"
    using nat_less_7_cases by blast
  then show ?thesis
    by cases (cases format; simp add: getDayIndex_def DAY_MAPPINGS_keys_def ko_defs)+
qed

text \<open>
  Claim C7. For every weekday index \<open>i\<close> from 0 to 6 and each of the six formats, looking
  the table entry \<open>DAY_MAPPINGS format ! i\<close> up with \<open>getDayIndex\<close> gives \<open>i\<close> back: the
  first-match search over the six tables finds every entry at its own index. So the name
  that \<open>getDayOfWeek\<close> gives a date leads back to the weekday of that date.
\<close>

theorem getDayIndex_DAY_MAPPINGS:
  "(i < 7 \<longrightarrow> getDayIndex (DAY_MAPPINGS format ! i) = Some (int i))
   \<and> (\<forall>name. getDayOfWeek tza date format = Some name \<longrightarrow>
         getDayIndex name = getDay tza date)"
proof (intro conjI impI allI)
  assume "i < 7"
  then show "getDayIndex (DAY_MAPPINGS format ! i) = Some (int i)" by (rule DAY_MAPPINGS_found)
next
  fix name
  assume n: "getDayOfWeek tza date format = Some name"
  then obtain w where w: "getDay tza date = Some w" "name = DAY_MAPPINGS format ! nat w"
    by (cases "getDay tza date") (simp_all add: getDayOfWeek_def)
  have "0 \<le> w \<and> w \<le> 6"
    using w(1) by (cases "getTime date") (auto simp add: getDay_def WeekDay_def)
  then have "nat w < 7" "int (nat w) = w" by auto
  then show "getDayIndex name = getDay tza date"
    using DAY_MAPPINGS_found[of "nat w" format] w by simp
qed

text \<open>An instance: Monday in the long Korean form, and Thursday 2025-04-24 in KST.\<close>

theorem getDayIndex_DAY_MAPPINGS_witness:
  "(1::nat) < 7 \<and> getDayIndex (DAY_MAPPINGS ko_long ! 1) = Some 1
   \<and> getDayOfWeek 32400000 (Date (Some 1745452800000)) en_long_caps = Some ''THURSDAY''
   \<and> getDayIndex ''THURSDAY'' = getDay 32400000 (Date (Some 1745452800000))
   \<and> getDay 32400000 (Date (Some 1745452800000)) = Some 4"
proof -
  have h1: "(1::nat) < 7" by simp
  have h2: "getDayOfWeek 32400000 (Date (Some 1745452800000)) en_long_caps = Some ''THURSDAY''"
    by code_simp
  have h3: "getDay 32400000 (Date (Some 1745452800000)) = Some 4" by code_simp
  show ?thesis
    using h1 h2 h3
      getDayIndex_DAY_MAPPINGS [of 1 ko_long 32400000 "Date (Some 1745452800000)"]
      getDayIndex_DAY_MAPPINGS [of 1 en_long_caps 32400000 "Date (Some 1745452800000)"]
    by simp
qed

section \<open>Calendar fields and day numbers\<close>

lemma MonthFromTime_cases: "MonthFromTime t \<in> {0,1,2,3,4,5,6,7,8,9,10,11}"
  unfolding MonthFromTime_def Let_def by simp

lemma DaysBeforeMonth_InLeapYear:
  "DaysBeforeMonth (YearFromTime t) m =
     (if m = 0 then 0 else if m = 1 then 31 else if m = 2 then 59 + InLeapYear t
      else if m = 3 then 90 + InLeapYear t else if m = 4 then 120 + InLeapYear t
      else if m = 5 then 151 + InLeapYear t else if m = 6 then 181 + InLeapYear t
      else if m = 7 then 212 + InLeapYear t else if m = 8 then 243 + InLeapYear t
      else if m = 9 then 273 + InLeapYear t else if m = 10 then 304 + InLeapYear t
      else 334 + InLeapYear t)"
  unfolding DaysBeforeMonth_def InLeapYear_def Let_def by simp

lemma DateFromTime_DaysBeforeMonth:
  "DateFromTime t = DayWithinYear t - DaysBeforeMonth (YearFromTime t) (MonthFromTime t) + 1"
proof -
  define m where "m = MonthFromTime t"
  have "m \<in> {0,1,2,3,4,5,6,7,8,9,10,11}" unfolding m_def by (rule MonthFromTime_cases)
  then show ?thesis
    unfolding DaysBeforeMonth_InLeapYear DateFromTime_def Let_def m_def[symmetric]
    by auto
qed

text \<open>
  \<open>MakeDay\<close> undoes the split of a time into year, month and date, and moving the date by
  \<open>k\<close> moves the day number by \<open>k\<close>. With \<open>k = 1 - DateFromTime t\<close> this is how the
  standard defines \<open>MakeDay\<close>: the day number of a time in that year and month with date 1,
  plus the date, minus 1.
\<close>

lemma MakeDay_fields:
  "MakeDay (YearFromTime t) (MonthFromTime t) (DateFromTime t + k) = Day t + k"
proof -
  have m: "MonthFromTime t \<in> {0,1,2,3,4,5,6,7,8,9,10,11}" by (rule MonthFromTime_cases)
  then have "MonthFromTime t div 12 = 0" "MonthFromTime t mod 12 = MonthFromTime t" by auto
  then show ?thesis
    unfolding MakeDay_def Let_def DateFromTime_DaysBeforeMonth
    by (simp add: DayWithinYear_def)
qed

lemma fields_of_Day:
  assumes "Day a = Day b"
  shows "YearFromTime a = YearFromTime b" "MonthFromTime a = MonthFromTime b"
    "DateFromTime a = DateFromTime b"
proof -
  show y: "YearFromTime a = YearFromTime b" using assms by (simp add: YearFromTime_def)
  have l: "InLeapYear a = InLeapYear b" using y by (simp add: InLeapYear_def)
  have d: "DayWithinYear a = DayWithinYear b" using y assms by (simp add: DayWithinYear_def)
  show m: "MonthFromTime a = MonthFromTime b" using l d by (simp add: MonthFromTime_def)
  show "DateFromTime a = DateFromTime b" using l d m by (simp add: DateFromTime_def)
qed

lemma Day_of_fields:
  assumes "YearFromTime a = YearFromTime b" "MonthFromTime a = MonthFromTime b"
    "DateFromTime a = DateFromTime b"
  shows "Day a = Day b"
  using MakeDay_fields[of a 0] MakeDay_fields[of b 0] assms by simp

text \<open>\<open>isSameDay\<close> compares year, month and date; that is the same as comparing local days.\<close>

lemma isSameDay_sameCalendarDay: "isSameDay tza d1 d2 = sameCalendarDay tza d1 d2"
proof (cases "getTime d1")
  case None
  then show ?thesis by (simp add: isSameDay_def sameCalendarDay_def getFullYear_def)
next
  case a: (Some a)
  show ?thesis
  proof (cases "getTime d2")
    case None
    then show ?thesis using a by (simp add: isSameDay_def sameCalendarDay_def getFullYear_def)
  next
    case b: (Some b)
    show ?thesis
      using a b fields_of_Day[of "LocalTime tza a" "LocalTime tza b"]
        Day_of_fields[of "LocalTime tza a" "LocalTime tza b"]
      by (auto simp add: isSameDay_def sameCalendarDay_def getFullYear_def getMonth_def getDate_def)
  qed
qed

lemma isSameDay_refl: "isValidDate d \<Longrightarrow> isSameDay tza d d"
  by (cases "getTime d")
     (simp_all add: isValidDate_def isNaN_def to_jsnum_def isSameDay_def getFullYear_def
        getMonth_def getDate_def)

section \<open>The date picker\<close>

text \<open>
  What \<open>isDateDisabled\<close> does with one string \<open>s\<close> as both bounds, when \<open>s\<close> resolves to a
  valid date: a date is selectable exactly when it falls on the local day of the instant
  that \<^verbatim>\<open>new Date\<close> reads from \<open>s\<close>, whatever \<open>today\<close> is.
\<close>

lemma isDateDisabled_equal_bounds:
  assumes "isValidDate (resolveBound parse today s)"
  shows "(\<not> isDateDisabled tza parse d s s today)
           = sameCalendarDay tza d (resolveBound parse today s)"
proof -
  define r where "r = resolveBound parse today s"
  have same: "isSameDay tza r r" using assms isSameDay_refl[of r tza] by (simp add: r_def)
  have "isDateDisabled tza parse d s s today = (\<not> isSameDay tza d r)"
    using same by (cases "s = []") (simp_all add: isDateDisabled_def Let_def r_def resolveBound_def)
  then show ?thesis by (simp add: isSameDay_sameCalendarDay r_def)
qed

text \<open>
  In KST the string \<^verbatim>\<open>2025-04-24\<close> as both bounds leaves 24 April selectable and disables
  the day before and the day after (local midnight of each).
\<close>

lemma isDateDisabled_KST:
  "\<not> isDateDisabled 32400000 parseISODate (Date (Some 1745420400000))
       ''2025-04-24'' ''2025-04-24'' (Date (Some 1745420400000))
   \<and> isDateDisabled 32400000 parseISODate (Date (Some 1745334000000))
        ''2025-04-24'' ''2025-04-24'' (Date (Some 1745420400000))
   \<and> isDateDisabled 32400000 parseISODate (Date (Some 1745506800000))
        ''2025-04-24'' ''2025-04-24'' (Date (Some 1745420400000))"
  by code_simp

text \<open>
  Claim C4 says that with \<open>s\<close> as both bounds a date is selectable if and only if it is
  the same calendar day as \<open>s\<close>, whatever \<open>today\<close> is. The code departs from it west of
  UTC. The string \<^verbatim>\<open>2025-04-24\<close> is read as midnight UTC, which at UTC-5 is 19:00 on 23
  April, and \<open>isSameDay\<close> compares local fields: local midnight of 24 April, the day the
  string names, is disabled, and local midnight of 23 April is selectable.
\<close>

theorem isDateDisabled_west_of_UTC:
  "new_Date_string parseISODate ''2025-04-24'' = Date (Some 1745452800000)
   \<and> getFullYear (- 18000000) (Date (Some 1745470800000)) = Some 2025
   \<and> getMonth (- 18000000) (Date (Some 1745470800000)) = Some 3
   \<and> getDate (- 18000000) (Date (Some 1745470800000)) = Some 24
   \<and> isDateDisabled (- 18000000) parseISODate (Date (Some 1745470800000))
        ''2025-04-24'' ''2025-04-24'' (Date (Some 1745470800000))
   \<and> getFullYear (- 18000000) (Date (Some 1745384400000)) = Some 2025
   \<and> getMonth (- 18000000) (Date (Some 1745384400000)) = Some 3
   \<and> getDate (- 18000000) (Date (Some 1745384400000)) = Some 23
   \<and> \<not> isDateDisabled (- 18000000) parseISODate (Date (Some 1745384400000))
          ''2025-04-24'' ''2025-04-24'' (Date (Some 1745470800000))"
  by code_simp

text \<open>
  Claim C5. With each bound of the range resolved (an empty string is today),
  \<open>getDefaultOpenMonth\<close> returns the start if the start is before today, whatever the end
  is; otherwise the end if the end is after today; otherwise today.
\<close>

theorem getDefaultOpenMonth_first_match:
  "(Date_less (resolveBound parse today startDateStr) today \<longrightarrow>
      (\<forall>e. getDefaultOpenMonth parse startDateStr e today
             = resolveBound parse today startDateStr))
   \<and> (\<not> Date_less (resolveBound parse today startDateStr) today
        \<and> Date_less today (resolveBound parse today endDateStr) \<longrightarrow>
      getDefaultOpenMonth parse startDateStr endDateStr today
        = resolveBound parse today endDateStr)
   \<and> (\<not> Date_less (resolveBound parse today startDateStr) today
        \<and> \<not> Date_less today (resolveBound parse today endDateStr) \<longrightarrow>
      getDefaultOpenMonth parse startDateStr endDateStr today = today)"
  by (simp add: getDefaultOpenMonth_def resolveBound_def)

text \<open>
  Instances with today 2025-04-25 (UTC midnight): a start in March wins over an end that
  is after today; with a start in May, the end in May is returned; with no bounds, today.
\<close>

theorem getDefaultOpenMonth_first_match_witness:
  "Date_less (resolveBound parseISODate (Date (Some 1745539200000)) ''2025-03-15'')
     (Date (Some 1745539200000))
   \<and> Date_less (Date (Some 1745539200000))
       (resolveBound parseISODate (Date (Some 1745539200000)) ''2025-04-28'')
   \<and> getDefaultOpenMonth parseISODate ''2025-03-15'' ''2025-04-28'' (Date (Some 1745539200000))
       = Date (Some 1741996800000)
   \<and> \<not> Date_less (resolveBound parseISODate (Date (Some 1745539200000)) ''2025-05-01'')
         (Date (Some 1745539200000))
   \<and> Date_less (Date (Some 1745539200000))
       (resolveBound parseISODate (Date (Some 1745539200000)) ''2025-05-20'')
   \<and> getDefaultOpenMonth parseISODate ''2025-05-01'' ''2025-05-20'' (Date (Some 1745539200000))
       = Date (Some 1747699200000)
   \<and> \<not> Date_less (resolveBound parseISODate (Date (Some 1745539200000)) [])
         (Date (Some 1745539200000))
   \<and> \<not> Date_less (Date (Some 1745539200000))
         (resolveBound parseISODate (Date (Some 1745539200000)) [])
   \<and> getDefaultOpenMonth parseISODate [] [] (Date (Some 1745539200000))
       = Date (Some 1745539200000)"
proof -
  have a1: "Date_less (resolveBound parseISODate (Date (Some 1745539200000)) ''2025-03-15'')
             (Date (Some 1745539200000))"
    by code_simp
  have a2: "Date_less (Date (Some 1745539200000))
             (resolveBound parseISODate (Date (Some 1745539200000)) ''2025-04-28'')"
    by code_simp
  have a3: "resolveBound parseISODate (Date (Some 1745539200000)) ''2025-03-15''
             = Date (Some 1741996800000)"
    by code_simp
  have b1: "\<not> Date_less (resolveBound parseISODate (Date (Some 1745539200000)) ''2025-05-01'')
             (Date (Some 1745539200000))"
    by code_simp
  have b2: "Date_less (Date (Some 1745539200000))
             (resolveBound parseISODate (Date (Some 1745539200000)) ''2025-05-20'')"
    by code_simp
  have b3: "resolveBound parseISODate (Date (Some 1745539200000)) ''2025-05-20''
             = Date (Some 1747699200000)"
    by code_simp
  have c1: "\<not> Date_less (resolveBound parseISODate (Date (Some 1745539200000)) [])
             (Date (Some 1745539200000))"
    by code_simp
  have c2: "\<not> Date_less (Date (Some 1745539200000))
             (resolveBound parseISODate (Date (Some 1745539200000)) [])"
    by code_simp
  show ?thesis
    using a1 a2 a3 b1 b2 b3 c1 c2
      getDefaultOpenMonth_first_match [of parseISODate "Date (Some 1745539200000)"
        "''2025-03-15''" "''2025-04-28''"]
      getDefaultOpenMonth_first_match [of parseISODate "Date (Some 1745539200000)"
        "''2025-05-01''" "''2025-05-20''"]
      getDefaultOpenMonth_first_match [of parseISODate "Date (Some 1745539200000)" "[]" "[]"]
    by simp
qed


section \<open>Week of the month\<close>

lemma Math_ceil_div_eq: "Math_ceil_div a b = - ((- a) div b)"
proof -
  have "\<lceil>(of_int a :: rat) / of_int b\<rceil> = - \<lfloor>(of_int (- a) :: rat) / of_int b\<rfloor>"
    by (simp add: ceiling_def)
  then show ?thesis unfolding Math_ceil_div_def by (simp only: floor_divide_of_int_eq)
qed

lemma DayWithinYear_bounds:
  "0 \<le> DayWithinYear t \<and> DayWithinYear t < DaysInYear (YearFromTime t)"
  using YearFromDay_bounds[of "Day t"] DayFromYear_step[of "YearFromTime t"]
  by (simp add: DayWithinYear_def YearFromTime_def)

lemma DayWithinYear_InLeapYear:
  "0 \<le> DayWithinYear t \<and> DayWithinYear t < 365 + InLeapYear t"
proof -
  have "DaysInYear (YearFromTime t) = 365 + InLeapYear t"
    unfolding InLeapYear_def DaysInYear_def by simp
  with DayWithinYear_bounds[of t] show ?thesis by simp
qed

lemma InLeapYear_cases: "InLeapYear t = 0 \<or> InLeapYear t = 1"
  by (simp add: InLeapYear_def)

text \<open>The day of the month is between 1 and 31.\<close>

lemma DateFromTime_bounds: "1 \<le> DateFromTime t \<and> DateFromTime t \<le> 31"
proof -
  define d where "d = DayWithinYear t"
  define l where "l = InLeapYear t"
  have b: "0 \<le> d" "d < 365 + l"
    using DayWithinYear_InLeapYear[of t] by (simp_all add: d_def l_def)
  have l: "l = 0 \<or> l = 1" using InLeapYear_cases[of t] by (simp add: l_def)
  show ?thesis
    unfolding DateFromTime_def MonthFromTime_def Let_def d_def[symmetric] l_def[symmetric]
    using b l by auto
qed

lemma WeekDay_bounds: "0 \<le> WeekDay t \<and> WeekDay t \<le> 6"
  by (simp add: WeekDay_def)

lemma getDay_bounds: "getDay tza d = Some w \<Longrightarrow> 0 \<le> w \<and> w \<le> 6"
  using WeekDay_bounds by (cases "getTime d") (auto simp add: getDay_def)

lemma getDate_bounds: "getDate tza d = Some n \<Longrightarrow> 1 \<le> n \<and> n \<le> 31"
  using DateFromTime_bounds by (cases "getTime d") (auto simp add: getDate_def)

lemma week_arith:
  fixes dm fw :: int
  assumes "1 \<le> fw" "dm \<le> 31" "fw < dm"
  shows "2 \<le> Math_ceil_div (dm - fw) 7 + 1 \<and> Math_ceil_div (dm - fw) 7 + 1 \<le> 6"
proof -
  have "1 \<le> dm - fw" "dm - fw \<le> 30" using assms by simp_all
  then show ?thesis unfolding Math_ceil_div_eq by presburger
qed

text \<open>
  Claim C10. For every date (valid or not) \<open>getWeekOfMonth\<close> returns a number from 1 to 6:
  the first week has at least one day and a month at most 31.
\<close>

theorem getWeekOfMonth_range:
  "1 \<le> getWeekOfMonth tza date \<and> getWeekOfMonth tza date \<le> 6"
proof (cases "getDate tza date")
  case None
  then show ?thesis by (simp add: getWeekOfMonth_def Let_def)
next
  case dm: (Some dm)
  define fd where
    "fd = getDay tza (new_Date_ymd tza (getFullYear tza date) (getMonth tza date) 1)"
  show ?thesis
  proof (cases fd)
    case None
    then show ?thesis using dm by (simp add: getWeekOfMonth_def Let_def fd_def[symmetric])
  next
    case (Some w)
    have w: "0 \<le> w" "w \<le> 6" using getDay_bounds[of tza _ w] Some by (simp_all add: fd_def)
    have d: "1 \<le> dm" "dm \<le> 31" using getDate_bounds[OF dm] by simp_all
    have r: "getWeekOfMonth tza date
               = (if dm > 7 - w then Math_ceil_div (dm - (7 - w)) 7 + 1 else 1)"
      using dm Some by (simp add: getWeekOfMonth_def Let_def fd_def[symmetric])
    show ?thesis
    proof (cases "dm > 7 - w")
      case True
      then show ?thesis using r week_arith[of "7 - w" dm] w d by simp
    next
      case False
      then show ?thesis using r by simp
    qed
  qed
qed

text \<open>The bound is met: March 2025 begins on a Saturday, and its 31st is in week 6 (KST).\<close>

theorem getWeekOfMonth_range_witness:
  "1 \<le> getWeekOfMonth 32400000 (Date (Some 1743379200000))
   \<and> getWeekOfMonth 32400000 (Date (Some 1743379200000)) \<le> 6
   \<and> getWeekOfMonth 32400000 (Date (Some 1743379200000)) = 6"
proof -
  have "getWeekOfMonth 32400000 (Date (Some 1743379200000)) = 6" by code_simp
  then show ?thesis
    using getWeekOfMonth_range [of 32400000 "Date (Some 1743379200000)"] by simp
qed

lemma TimeClip_to_jsnum:
  "TimeClip (to_jsnum (Some t)) = (if \<bar>t\<bar> > 8640000000000000 then None else Some t)"
  unfolding to_jsnum_def option.case by (rule TimeClip_of_int)

lemma Day_shift: "Day (t + k * msPerDay) = Day t + k"
  by (simp add: Day_def msPerDay_def)

lemma Day_shift_minus: "Day (t - k * msPerDay) = Day t - k"
  using Day_shift[of t "- k"] by simp

lemma Day_mult: "Day (k * msPerDay) = k"
  by (simp add: Day_def msPerDay_def)

lemma MakeDay_first:
  "MakeDay (YearFromTime t) (MonthFromTime t) 1 = Day t - (DateFromTime t - 1)"
  using MakeDay_fields[of t "1 - DateFromTime t"] by simp

text \<open>
  Where \<open>getWeekOfMonth\<close> follows the specification's formula: on every valid date whose
  local year is not one of 0 to 99 and whose month begins inside the range of time values.
\<close>

lemma getWeekOfMonth_formula:
  assumes t: "getTime date = Some t"
    and y: "YearFromTime (LocalTime tza t) < 0 \<or> 99 < YearFromTime (LocalTime tza t)"
    and r: "\<bar>t - (DateFromTime (LocalTime tza t) - 1) * msPerDay
              - TimeWithinDay (LocalTime tza t)\<bar> \<le> 8640000000000000"
  shows "getWeekOfMonth tza date
           = weekOfMonth_spec (DateFromTime (LocalTime tza t))
               (firstOfMonthWeekday (LocalTime tza t))"
proof -
  define u where "u = LocalTime tza t"
  define f where "f = Day u - (DateFromTime u - 1)"
  have fy: "MakeFullYear (YearFromTime u) = YearFromTime u"
    using y by (auto simp add: MakeFullYear_def u_def)
  have split: "u = Day u * msPerDay + TimeWithinDay u"
    by (simp add: Day_def TimeWithinDay_def)
  have "f * msPerDay - tza = t - (DateFromTime u - 1) * msPerDay - TimeWithinDay u"
    using split by (simp add: f_def u_def LocalTime_def algebra_simps)
  then have inr: "\<not> \<bar>f * msPerDay - tza\<bar> > 8640000000000000" using r by (simp add: u_def)
  have first: "new_Date_ymd tza (getFullYear tza date) (getMonth tza date) 1
                 = Date (Some (f * msPerDay - tza))"
    using t inr
    by (simp add: new_Date_ymd_def getFullYear_def getMonth_def fy MakeDay_first
        u_def[symmetric] f_def[symmetric] MakeDate_def UTC_def TimeClip_to_jsnum)
  have wd: "getDay tza (Date (Some (f * msPerDay - tza))) = Some ((f + 4) mod 7)"
    by (simp add: getDay_def LocalTime_def WeekDay_def Day_mult)
  have "firstOfMonthWeekday u = (f + 4) mod 7"
    by (simp add: firstOfMonthWeekday_def WeekDay_def f_def Day_shift_minus)
  then show ?thesis
    using t first wd
    by (simp add: getWeekOfMonth_def Let_def getDate_def u_def[symmetric]
        weekOfMonth_spec_def Math_ceil_div_def not_less)
qed

text \<open>The first day of every month is in week 1.\<close>

lemma getWeekOfMonth_first_day:
  assumes "getDate tza date = Some 1"
  shows "getWeekOfMonth tza date = 1"
proof (cases "getDay tza (new_Date_ymd tza (getFullYear tza date) (getMonth tza date) 1)")
  case None
  then show ?thesis using assms by (simp add: getWeekOfMonth_def Let_def)
next
  case (Some w)
  then have "w \<le> 6" using getDay_bounds[of tza _ w] by simp
  then show ?thesis using assms Some by (simp add: getWeekOfMonth_def Let_def)
qed

text \<open>
  Claim C2 says that \<open>getWeekOfMonth\<close> is week 1 up to \<open>7 - w\<close>, where \<open>w\<close> is the weekday of
  the first day of the date's month, and \<open>ceil((dayOfMonth - (7 - w)) / 7) + 1\<close> after that.
  The code departs from it on 5 March of the year 50 (UTC). That month begins on a
  Tuesday, so the 5th is in week 1; \<open>getWeekOfMonth\<close> takes the weekday from
  \<^verbatim>\<open>new Date(50, 2, 1)\<close>, which is 1 March 1950, a Wednesday, and returns 2.
\<close>

theorem getWeekOfMonth_year_50:
  "getFullYear 0 (Date (Some (- 60583852800000))) = Some 50
   \<and> getMonth 0 (Date (Some (- 60583852800000))) = Some 2
   \<and> getDate 0 (Date (Some (- 60583852800000))) = Some 5
   \<and> getDate 0 (Date (Some (- 60583852800000 - 4 * msPerDay))) = Some 1
   \<and> getDay 0 (Date (Some (- 60583852800000 - 4 * msPerDay))) = Some 2
   \<and> firstOfMonthWeekday (LocalTime 0 (- 60583852800000)) = 2
   \<and> weekOfMonth_spec 5 2 = 1
   \<and> getDay 0 (new_Date_ymd 0 (Some 50) (Some 2) 1) = Some 3
   \<and> getFullYear 0 (new_Date_ymd 0 (Some 50) (Some 2) 1) = Some 1950
   \<and> getWeekOfMonth 0 (Date (Some (- 60583852800000))) = 2"
  by code_simp

section \<open>The nearest weekday\<close>

lemma indexOf_bounds: "indexOf xs x = - 1 \<or> (0 \<le> indexOf xs x \<and> indexOf xs x < int (length xs))"
  by (induction xs) (auto simp add: Let_def)

lemma length_DAY_MAPPINGS: "length (DAY_MAPPINGS format) = 7"
  by (cases format) simp_all

lemma getDayIndex_loop_bounds:
  "getDayIndex_loop formats day = Some i \<Longrightarrow> 0 \<le> i \<and> i \<le> 6"
proof (induction formats)
  case Nil
  then show ?case by simp
next
  case (Cons format formats)
  show ?case
  proof (cases "indexOf (DAY_MAPPINGS format) day = - 1")
    case True
    with Cons show ?thesis by (simp add: Let_def)
  next
    case False
    with Cons.prems have "i = indexOf (DAY_MAPPINGS format) day" by (simp add: Let_def)
    with False indexOf_bounds[of "DAY_MAPPINGS format" day] show ?thesis
      by (simp add: length_DAY_MAPPINGS)
  qed
qed

lemma getDayIndex_bounds: "getDayIndex day = Some i \<Longrightarrow> 0 \<le> i \<and> i \<le> 6"
  unfolding getDayIndex_def by (rule getDayIndex_loop_bounds)

lemma mod7_small: "0 \<le> a \<Longrightarrow> a < 14 \<Longrightarrow> (a::int) mod 7 = (if a < 7 then a else a - 7)"
proof (cases "a < 7")
  case True
  assume "0 \<le> a"
  with True show ?thesis by simp
next
  case False
  assume "a < 14"
  with False have "0 \<le> a - 7" "a - 7 < 7" by simp_all
  then have e1: "(a - 7) mod 7 = a - 7" by (rule mod_pos_pos_trivial)
  have e2: "a mod 7 = (a - 7) mod 7" by (metis mod_diff_right_eq mod_self diff_zero)
  have "a mod 7 = a - 7" by (rule trans[OF e2 e1])
  then show ?thesis using False by simp
qed

lemma mod7_target:
  assumes "0 \<le> target" "target \<le> (6::int)"
  shows "target mod 7 = target" "(target + 7) mod 7 = target"
  using assms by simp_all

lemma daysToAdd_forward:
  assumes "0 \<le> target" "target \<le> 6" "0 \<le> cur" "cur \<le> 6"
  shows "1 \<le> daysToAdd_of target cur True \<and> daysToAdd_of target cur True \<le> 7
         \<and> (cur + daysToAdd_of target cur True) mod 7 = target
         \<and> (cur = target \<longrightarrow> daysToAdd_of target cur True = 7)"
proof -
  define a where "a = target - cur + 7"
  have p: "0 \<le> a" "a < 14" "0 < a" using assms by (simp_all add: a_def)
  have r: "js_rem a 7 = (if a < 7 then a else a - 7)"
    using p mod7_small[of a] by (simp add: js_rem_def)
  have k: "daysToAdd_of target cur True = (if a = 7 then 7 else if a < 7 then a else a - 7)"
    unfolding daysToAdd_of_def Let_def a_def[symmetric] r using p by auto
  have c: "cur + a = target + 7" by (simp add: a_def)
  show ?thesis
  proof (cases "a = 7")
    case True
    then have "cur = target" by (simp add: a_def)
    then show ?thesis using k True mod7_target[OF assms(1,2)] by simp
  next
    case False
    show ?thesis
    proof (cases "a < 7")
      case True
      then have "daysToAdd_of target cur True = a" using k by simp
      moreover have "cur \<noteq> target" using True by (auto simp add: a_def)
      moreover have "1 \<le> a" using assms True by (simp add: a_def)
      ultimately show ?thesis using True c mod7_target[OF assms(1,2)] by simp
    next
      case ge: False
      then have e: "daysToAdd_of target cur True = a - 7" using k False by simp
      have "cur \<noteq> target" using False by (auto simp add: a_def)
      moreover have "cur + (a - 7) = target" using c by simp
      ultimately show ?thesis using e ge False p mod7_target[OF assms(1,2)] by simp
    qed
  qed
qed

lemma daysToAdd_backward:
  assumes "0 \<le> target" "target \<le> 6" "0 \<le> cur" "cur \<le> 6"
  shows "- 7 \<le> daysToAdd_of target cur False \<and> daysToAdd_of target cur False \<le> - 1
         \<and> (cur + daysToAdd_of target cur False) mod 7 = target
         \<and> (cur = target \<longrightarrow> daysToAdd_of target cur False = - 7)"
proof -
  define a where "a = cur + 7 - target"
  have p: "0 < a" "a < 14" using assms by (simp_all add: a_def)
  have n: "target - cur - 7 = - a" by (simp add: a_def)
  have r: "js_rem (- a) 7 = - (if a < 7 then a else a - 7)"
    using p mod7_small[of a] by (simp add: js_rem_def)
  have k: "daysToAdd_of target cur False = (if a = 7 then - 7 else if a < 7 then - a else 7 - a)"
    unfolding daysToAdd_of_def Let_def n r using p by auto
  have c: "cur - a = target - 7" by (simp add: a_def)
  have m: "(target - 7) mod 7 = target"
    using mod7_target[OF assms(1,2)] by (metis mod_diff_right_eq mod_self diff_zero)
  show ?thesis
  proof (cases "a = 7")
    case True
    then have "cur = target" by (simp add: a_def)
    then show ?thesis using k True m by simp
  next
    case False
    show ?thesis
    proof (cases "a < 7")
      case True
      then have "daysToAdd_of target cur False = - a" using k by simp
      moreover have "cur \<noteq> target" using True by (auto simp add: a_def)
      ultimately show ?thesis using True c p m by simp
    next
      case ge: False
      then have e: "daysToAdd_of target cur False = 7 - a" using k False by simp
      have "cur \<noteq> target" using False by (auto simp add: a_def)
      moreover have "cur + (7 - a) = target" using c by simp
      ultimately show ?thesis using e ge False p mod7_target[OF assms(1,2)] by simp
    qed
  qed
qed

lemma time_split: "Day u * msPerDay + TimeWithinDay u = u"
  by (simp add: Day_def TimeWithinDay_def)

lemma setDate_shift:
  "setDate tza (Date (Some t)) (Some (DateFromTime (LocalTime tza t) + k))
     = Date (TimeClip (to_jsnum (Some (t + k * msPerDay))))"
proof -
  define u where "u = LocalTime tza t"
  have "MakeDate (MakeDay (YearFromTime u) (MonthFromTime u) (DateFromTime u + k)) (TimeWithinDay u)
          = u + k * msPerDay"
    unfolding MakeDate_def MakeDay_fields using time_split[of u] by (simp add: algebra_simps)
  then have "UTC tza (MakeDate (MakeDay (YearFromTime u) (MonthFromTime u) (DateFromTime u + k))
               (TimeWithinDay u)) = t + k * msPerDay"
    by (simp add: UTC_def u_def LocalTime_def)
  then show ?thesis
    by (simp add: setDate_def Let_def u_def[symmetric])
qed

lemma getDay_shift:
  "getDay tza (Date (Some (t + k * msPerDay))) = Some ((WeekDay (LocalTime tza t) + k) mod 7)"
proof -
  have l: "LocalTime tza (t + k * msPerDay) = LocalTime tza t + k * msPerDay"
    by (simp add: LocalTime_def)
  have "WeekDay (LocalTime tza t + k * msPerDay) = (WeekDay (LocalTime tza t) + k) mod 7"
    unfolding WeekDay_def Day_shift by (simp add: mod_simps algebra_simps)
  then show ?thesis
    unfolding getDay_def Date.sel option.map l by (simp only:)
qed

text \<open>
  Claim C3, amended. A weekday name that no table has gives \<^verbatim>\<open>null\<close>. For a name with
  index \<open>target\<close>, a valid base date with time value \<open>t\<close>, and provided the day seven days
  after \<open>t\<close> (searching forward) or seven days before \<open>t\<close> (searching backward) is still
  inside the range of time values, \<open>getNextDayOfWeek\<close> returns the date \<open>k\<close> days from the
  base date at the same time of day, whose weekday is \<open>target\<close>; \<open>k\<close> is from 1 to 7 and the
  result is after the base date when searching forward, \<open>k\<close> is from -7 to -1 and the result
  is before it when searching backward; and when the base date already has the weekday
  \<open>target\<close>, \<open>k\<close> is 7 or -7, never 0.
\<close>

theorem getNextDayOfWeek_offset:
  "(getDayIndex targetDay = None \<longrightarrow>
      getNextDayOfWeek tza targetDay baseDate searchForward = None)
   \<and> (\<forall>target t.
        getDayIndex targetDay = Some target \<and> getTime baseDate = Some t
        \<and> \<bar>t\<bar> \<le> 8640000000000000
        \<and> (if searchForward then t + 7 * msPerDay \<le> 8640000000000000
            else - 8640000000000000 \<le> t - 7 * msPerDay) \<longrightarrow>
        (let k = daysToAdd_of target (WeekDay (LocalTime tza t)) searchForward;
             result = Date (Some (t + k * msPerDay))
         in getNextDayOfWeek tza targetDay baseDate searchForward = Some result
            \<and> (if searchForward then 1 \<le> k \<and> k \<le> 7 \<and> Date_less baseDate result
                else - 7 \<le> k \<and> k \<le> - 1 \<and> Date_less result baseDate)
            \<and> getDay tza result = Some target
            \<and> (getDay tza baseDate = Some target \<longrightarrow>
                  k = (if searchForward then 7 else - 7))))"
proof (intro conjI allI impI)
  assume "getDayIndex targetDay = None"
  then show "getNextDayOfWeek tza targetDay baseDate searchForward = None"
    by (simp add: getNextDayOfWeek_def)
next
  fix target t
  assume a: "getDayIndex targetDay = Some target \<and> getTime baseDate = Some t
        \<and> \<bar>t\<bar> \<le> 8640000000000000
        \<and> (if searchForward then t + 7 * msPerDay \<le> 8640000000000000
            else - 8640000000000000 \<le> t - 7 * msPerDay)"
  define cur where "cur = WeekDay (LocalTime tza t)"
  define k where "k = daysToAdd_of target cur searchForward"
  have tb: "0 \<le> target" "target \<le> 6" using a getDayIndex_bounds[of targetDay target] by simp_all
  have cb: "0 \<le> cur" "cur \<le> 6" using WeekDay_bounds[of "LocalTime tza t"] by (simp_all add: cur_def)
  have base: "baseDate = Date (Some t)" using a by (cases baseDate) simp
  have kb: "if searchForward then 1 \<le> k \<and> k \<le> 7 else - 7 \<le> k \<and> k \<le> - 1"
    using daysToAdd_forward[OF tb cb] daysToAdd_backward[OF tb cb] by (simp add: k_def)
  have km: "(cur + k) mod 7 = target"
    using daysToAdd_forward[OF tb cb] daysToAdd_backward[OF tb cb]
    by (cases searchForward) (simp_all add: k_def)
  have ks: "cur = target \<longrightarrow> k = (if searchForward then 7 else - 7)"
    using daysToAdd_forward[OF tb cb] daysToAdd_backward[OF tb cb]
    by (cases searchForward) (simp_all add: k_def)
  have tr: "- 8640000000000000 \<le> t" "t \<le> 8640000000000000" using a by (simp_all add: abs_le_iff)
  have inr: "\<not> \<bar>t + k * msPerDay\<bar> > 8640000000000000"
  proof (cases searchForward)
    case True
    then have "1 \<le> k" "k \<le> 7" using kb by simp_all
    then have "k * msPerDay \<le> 7 * msPerDay" "0 \<le> k * msPerDay"
      by (simp_all add: msPerDay_def)
    moreover have "t + 7 * msPerDay \<le> 8640000000000000" using a True by simp
    ultimately have "t + k * msPerDay \<le> 8640000000000000" "- 8640000000000000 \<le> t + k * msPerDay"
      using tr by linarith+
    then show ?thesis by (simp add: not_less abs_le_iff)
  next
    case False
    then have "- 7 \<le> k" "k \<le> - 1" using kb by simp_all
    then have "- 7 * msPerDay \<le> k * msPerDay" "k * msPerDay \<le> 0"
      by (simp_all add: msPerDay_def)
    moreover have "- 8640000000000000 \<le> t - 7 * msPerDay" using a False by simp
    ultimately have "t + k * msPerDay \<le> 8640000000000000" "- 8640000000000000 \<le> t + k * msPerDay"
      using tr by linarith+
    then show ?thesis by (simp add: not_less abs_le_iff)
  qed
  have res: "getNextDayOfWeek tza targetDay baseDate searchForward
               = Some (Date (Some (t + k * msPerDay)))"
    using a inr
    by (simp add: getNextDayOfWeek_def base new_Date_copy_def Let_def getDay_def getDate_def
        setDate_shift TimeClip_to_jsnum cur_def[symmetric] k_def[symmetric])
  have ord: "if searchForward then Date_less baseDate (Date (Some (t + k * msPerDay)))
             else Date_less (Date (Some (t + k * msPerDay))) baseDate"
  proof (cases searchForward)
    case True
    then have "0 < k" using kb by simp
    then have "0 < k * msPerDay" by (simp add: msPerDay_def)
    then show ?thesis using True by (simp add: Date_less_def base)
  next
    case False
    then have "k < 0" using kb by simp
    then have "k * msPerDay < 0" by (simp add: msPerDay_def)
    then show ?thesis using False by (simp add: Date_less_def base)
  qed
  have wd: "getDay tza (Date (Some (t + k * msPerDay))) = Some target"
    using km by (simp add: getDay_shift cur_def)
  have same: "getDay tza baseDate = Some target \<longrightarrow> k = (if searchForward then 7 else - 7)"
    using ks by (simp add: base getDay_def cur_def)
  show "let k = daysToAdd_of target (WeekDay (LocalTime tza t)) searchForward;
             result = Date (Some (t + k * msPerDay))
         in getNextDayOfWeek tza targetDay baseDate searchForward = Some result
            \<and> (if searchForward then 1 \<le> k \<and> k \<le> 7 \<and> Date_less baseDate result
                else - 7 \<le> k \<and> k \<le> - 1 \<and> Date_less result baseDate)
            \<and> getDay tza result = Some target
            \<and> (getDay tza baseDate = Some target \<longrightarrow>
                  k = (if searchForward then 7 else - 7))"
    unfolding Let_def cur_def[symmetric] k_def[symmetric]
    using res kb ord wd same by (cases searchForward) simp_all
qed

text \<open>
  Claim C3 as stated covers every base date, and fails on the last one: from 13 September
  275760 (a Saturday, time value 8.64e15) the next Sunday is outside the range of time
  values, and the result is an invalid \<^verbatim>\<open>Date\<close>, with no weekday.
\<close>

theorem getNextDayOfWeek_range_end:
  "getDayIndex ''sun'' = Some 0
   \<and> new_Date_number (Fin 8640000000000000) = Date (Some 8640000000000000)
   \<and> isValidDate (Date (Some 8640000000000000))
   \<and> getDay 0 (Date (Some 8640000000000000)) = Some 6
   \<and> getNextDayOfWeek 0 ''sun'' (Date (Some 8640000000000000)) True = Some (Date None)
   \<and> \<not> isValidDate (Date None)
   \<and> getDay 0 (Date None) = None"
  by code_simp

text \<open>
  An instance in KST: from Thursday 2025-04-24 the next Thursday is 7 days later, the
  previous one 7 days earlier, and \<^verbatim>\<open>Thursday\<close> (capitalised) is in no table.
\<close>

theorem getNextDayOfWeek_offset_witness:
  "getDayIndex ''thu'' = Some 4 \<and> getTime (Date (Some 1745452800000)) = Some 1745452800000
   \<and> \<bar>1745452800000 :: int\<bar> \<le> 8640000000000000
   \<and> 1745452800000 + 7 * msPerDay \<le> 8640000000000000
   \<and> - 8640000000000000 \<le> 1745452800000 - 7 * msPerDay
   \<and> getDay 32400000 (Date (Some 1745452800000)) = Some 4
   \<and> getNextDayOfWeek 32400000 ''thu'' (Date (Some 1745452800000)) True
       = Some (Date (Some (1745452800000 + 7 * msPerDay)))
   \<and> getNextDayOfWeek 32400000 ''thu'' (Date (Some 1745452800000)) False
       = Some (Date (Some (1745452800000 + (- 7) * msPerDay)))
   \<and> getDay 32400000 (Date (Some (1745452800000 + 7 * msPerDay))) = Some 4
   \<and> getDayIndex ''Thursday'' = None
   \<and> getNextDayOfWeek 32400000 ''Thursday'' (Date (Some 1745452800000)) True = None"
proof -
  have h1: "getDayIndex ''thu'' = Some 4" by code_simp
  have h2: "getTime (Date (Some 1745452800000)) = Some 1745452800000" by simp
  have h3: "\<bar>1745452800000 :: int\<bar> \<le> 8640000000000000" by simp
  have h4: "1745452800000 + 7 * msPerDay \<le> 8640000000000000" by (simp add: msPerDay_def)
  have h5: "- 8640000000000000 \<le> 1745452800000 - 7 * msPerDay" by (simp add: msPerDay_def)
  have h6: "getDay 32400000 (Date (Some 1745452800000)) = Some 4" by code_simp
  have h7: "getDayIndex ''Thursday'' = None" by code_simp
  have k1: "daysToAdd_of 4 (WeekDay (LocalTime 32400000 1745452800000)) True = 7" by code_simp
  have k2: "daysToAdd_of 4 (WeekDay (LocalTime 32400000 1745452800000)) False = - 7" by code_simp
  note f = getNextDayOfWeek_offset [of "''thu''" 32400000 "Date (Some 1745452800000)" True]
  note b = getNextDayOfWeek_offset [of "''thu''" 32400000 "Date (Some 1745452800000)" False]
  note n = getNextDayOfWeek_offset [of "''Thursday''" 32400000 "Date (Some 1745452800000)" True]
  have f': "getNextDayOfWeek 32400000 ''thu'' (Date (Some 1745452800000)) True
       = Some (Date (Some (1745452800000 + 7 * msPerDay)))
     \<and> getDay 32400000 (Date (Some (1745452800000 + 7 * msPerDay))) = Some 4"
    using f h1 h2 h3 h4 k1 by (simp add: Let_def)
  have b': "getNextDayOfWeek 32400000 ''thu'' (Date (Some 1745452800000)) False
       = Some (Date (Some (1745452800000 + (- 7) * msPerDay)))"
    using b h1 h2 h3 h5 k2 by (simp add: Let_def)
  have n': "getNextDayOfWeek 32400000 ''Thursday'' (Date (Some 1745452800000)) True = None"
    using n h7 by simp
  show ?thesis using h1 h2 h3 h4 h5 h6 h7 f' b' n' by simp
qed

section \<open>Safe formatting\<close>

lemma isValidDate_iff: "isValidDate d = (getTime d \<noteq> None)"
  by (cases "getTime d") (simp_all add: isValidDate_def isNaN_def to_jsnum_def)

lemma formatSafeDate_refines: "formatSafeDate tza parse v p = safeFormatDate_spec tza parse v p"
proof (cases v)
  case Undefined
  then show ?thesis by (simp add: formatSafeDate_def safeFormatDate_spec_def)
next
  case (NumberValue n)
  then show ?thesis
    by (auto simp add: formatSafeDate_def safeFormatDate_spec_def numericLike_def epochToDate_def
        isValidDate_iff fromUnixTime_def unixEpochToDate_def epochMillisecondsToDate_def Let_def)
next
  case (StringValue s)
  then show ?thesis
    by (auto simp add: formatSafeDate_def safeFormatDate_spec_def numericLike_def epochToDate_def
        isValidDate_iff fromUnixTime_def unixEpochToDate_def epochMillisecondsToDate_def Let_def
        isNaN_def)
qed

lemma formatSafeDate_epoch_seconds:
  "formatSafeDate tza parse (NumberValue (Fin 1714022400)) p
     = formatDate tza (Date (Some 1714022400000)) p"
proof -
  have n: "toDouble 1714022400 = Fin 1714022400"
    using toDouble_of_int[of 1714022400] by simp
  have "js_times (Fin (of_int 1714022400)) 1000 = Fin (of_int (1714022400 * 1000))"
    by (rule js_times_1000_int) simp
  then have m: "js_times (Fin 1714022400) 1000 = Fin (of_int 1714022400000)" by simp
  have "TimeClip (Fin (of_int 1714022400000)) = Some 1714022400000"
    by (simp only: TimeClip_of_int) simp
  then have "fromUnixTime (Fin 1714022400) = Date (Some 1714022400000)"
    unfolding fromUnixTime_def new_Date_number_def m by simp
  then show ?thesis
    by (simp add: formatSafeDate_def isValidDate_iff n)
qed

lemma formatSafeDate_epoch_milliseconds:
  "formatSafeDate tza parse (NumberValue (Fin 1714022400000)) p
     = formatDate tza (Date (Some 1714022400000)) p"
proof -
  have n: "toDouble 1714022400000 = Fin 1714022400000"
    using toDouble_of_int[of 1714022400000] by simp
  have "TimeClip (Fin (of_int 1714022400000)) = Some 1714022400000"
    by (simp only: TimeClip_of_int) simp
  then have "new_Date_number (Fin 1714022400000) = Date (Some 1714022400000)"
    by (simp add: new_Date_number_def)
  then show ?thesis
    by (simp add: formatSafeDate_def isValidDate_iff n)
qed

text \<open>
  Two strings whose mathematical value is no double. The first is rounded down to the
  last time value of the \<^verbatim>\<open>Date\<close> range and gives a valid date in milliseconds; the second
  is rounded down to the threshold, is not greater than it, and is taken in seconds.
\<close>

lemma formatSafeDate_rounded_milliseconds:
  "formatSafeDate tza parse (StringValue ''8640000000000000.4'') p
     = formatDate tza (Date (Some 8640000000000000)) p"
proof -
  have n: "StringToNumber ''8640000000000000.4'' = Fin 8640000000000000" by code_simp
  have "TimeClip (Fin (of_int 8640000000000000)) = Some 8640000000000000"
    by (simp only: TimeClip_of_int) simp
  then have "new_Date_number (Fin 8640000000000000) = Date (Some 8640000000000000)"
    by (simp add: new_Date_number_def)
  then show ?thesis
    by (simp add: formatSafeDate_def isValidDate_iff isNaN_def n)
qed

lemma formatSafeDate_rounded_seconds:
  "formatSafeDate tza parse (StringValue ''1000000000000.00001'') p
     = formatDate tza (Date (Some 1000000000000000)) p"
proof -
  have n: "StringToNumber ''1000000000000.00001'' = Fin 1000000000000" by code_simp
  have "js_times (Fin (of_int 1000000000000)) 1000 = Fin (of_int (1000000000000 * 1000))"
    by (rule js_times_1000_int) simp
  then have m: "js_times (Fin 1000000000000) 1000 = Fin (of_int 1000000000000000)" by simp
  have "TimeClip (Fin (of_int 1000000000000000)) = Some 1000000000000000"
    by (simp only: TimeClip_of_int) simp
  then have "fromUnixTime (Fin 1000000000000) = Date (Some 1000000000000000)"
    unfolding fromUnixTime_def new_Date_number_def m by simp
  then show ?thesis
    by (simp add: formatSafeDate_def isValidDate_iff isNaN_def n)
qed

text \<open>
  Claim C1. For every pattern and every value \<open>formatSafeDate\<close> returns a string, the one
  the specification describes: the placeholder \<^verbatim>\<open>-\<close> when the value is absent or falsy or
  the date built from it is invalid; a numeric-like value is an epoch value, in
  milliseconds when greater than 1,000,000,000,000 and in seconds otherwise. So
  1714022400 and 1714022400000 format the same date, and \<^verbatim>\<open>undefined\<close> gives \<^verbatim>\<open>-\<close>.
\<close>

theorem formatSafeDate_meets_spec:
  "formatSafeDate tza parse v p = safeFormatDate_spec tza parse v p
   \<and> (falsy v \<longrightarrow> formatSafeDate tza parse v p = ''-'')
   \<and> formatSafeDate tza parse Undefined p = ''-''
   \<and> formatSafeDate tza parse (NumberValue (Fin 1714022400)) p
       = formatSafeDate tza parse (NumberValue (Fin 1714022400000)) p
   \<and> formatSafeDate tza parse (NumberValue (Fin 1714022400)) p
       = formatDate tza (Date (Some 1714022400000)) p"
  using formatSafeDate_refines[of tza parse v p] formatSafeDate_epoch_seconds[of tza parse p]
    formatSafeDate_epoch_milliseconds[of tza parse p]
  by (simp add: formatSafeDate_def)

text \<open>Instances in KST, with the pattern \<^verbatim>\<open>yyyy/MM/dd\<close>.\<close>

theorem formatSafeDate_meets_spec_witness:
  "\<not> falsy (StringValue ''1714022400'') \<and> numericLike (StringValue ''1714022400'')
   \<and> formatSafeDate 32400000 parseISODate (StringValue ''1714022400'') ''yyyy/MM/dd'' = ''2024/04/25''
   \<and> formatSafeDate 32400000 parseISODate (NumberValue (Fin 1714022400)) ''yyyy/MM/dd'' = ''2024/04/25''
   \<and> formatSafeDate 32400000 parseISODate (NumberValue (Fin 1714022400000)) ''yyyy/MM/dd'' = ''2024/04/25''
   \<and> falsy (NumberValue (Fin 0))
   \<and> formatSafeDate 32400000 parseISODate (NumberValue (Fin 0)) ''yyyy/MM/dd'' = ''-''
   \<and> formatSafeDate 32400000 parseISODate (StringValue ''2025-04-24'') ''yyyy/MM/dd'' = ''2025/04/24''
   \<and> formatSafeDate 32400000 parseISODate (StringValue ''no date'') ''yyyy/MM/dd'' = ''-''"
proof -
  have h1: "\<not> falsy (StringValue ''1714022400'')" by simp
  have h2: "numericLike (StringValue ''1714022400'')" by code_simp
  have h3: "falsy (NumberValue (Fin 0))" by (simp add: toDouble_def)
  have e1: "safeFormatDate_spec 32400000 parseISODate (StringValue ''1714022400'') ''yyyy/MM/dd'' = ''2024/04/25''"
    by code_simp
  have e2: "formatDate 32400000 (Date (Some 1714022400000)) ''yyyy/MM/dd'' = ''2024/04/25''"
    by code_simp
  have e3: "safeFormatDate_spec 32400000 parseISODate (StringValue ''2025-04-24'') ''yyyy/MM/dd'' = ''2025/04/24''"
    by code_simp
  have e4: "safeFormatDate_spec 32400000 parseISODate (StringValue ''no date'') ''yyyy/MM/dd'' = ''-''"
    by code_simp
  note a = formatSafeDate_meets_spec [of 32400000 parseISODate "StringValue ''1714022400''" "''yyyy/MM/dd''"]
  note b = formatSafeDate_meets_spec [of 32400000 parseISODate "NumberValue (Fin 0)" "''yyyy/MM/dd''"]
  note c = formatSafeDate_meets_spec [of 32400000 parseISODate "StringValue ''2025-04-24''" "''yyyy/MM/dd''"]
  note d = formatSafeDate_meets_spec [of 32400000 parseISODate "StringValue ''no date''" "''yyyy/MM/dd''"]
  from a have a1: "formatSafeDate 32400000 parseISODate (StringValue ''1714022400'') ''yyyy/MM/dd''
      = safeFormatDate_spec 32400000 parseISODate (StringValue ''1714022400'') ''yyyy/MM/dd''"
    and a4: "formatSafeDate 32400000 parseISODate (NumberValue (Fin 1714022400)) ''yyyy/MM/dd''
      = formatSafeDate 32400000 parseISODate (NumberValue (Fin 1714022400000)) ''yyyy/MM/dd''"
    and a5: "formatSafeDate 32400000 parseISODate (NumberValue (Fin 1714022400)) ''yyyy/MM/dd''
      = formatDate 32400000 (Date (Some 1714022400000)) ''yyyy/MM/dd''"
    by blast+
  have r1: "formatSafeDate 32400000 parseISODate (StringValue ''1714022400'') ''yyyy/MM/dd''
      = ''2024/04/25''"
    by (rule trans[OF a1 e1])
  have r2: "formatSafeDate 32400000 parseISODate (NumberValue (Fin 1714022400)) ''yyyy/MM/dd''
      = ''2024/04/25''"
    by (rule trans[OF a5 e2])
  have r3: "formatSafeDate 32400000 parseISODate (NumberValue (Fin 1714022400000)) ''yyyy/MM/dd''
      = ''2024/04/25''"
    by (rule trans[OF a4[symmetric] r2])
  have r4: "formatSafeDate 32400000 parseISODate (NumberValue (Fin 0)) ''yyyy/MM/dd'' = ''-''"
    using b h3 by blast
  have r5: "formatSafeDate 32400000 parseISODate (StringValue ''2025-04-24'') ''yyyy/MM/dd'' = ''2025/04/24''"
    using c e3 by metis
  have r6: "formatSafeDate 32400000 parseISODate (StringValue ''no date'') ''yyyy/MM/dd'' = ''-''"
    using d e4 by metis
  show ?thesis using h1 h2 h3 r1 r2 r3 r4 r5 r6 by blast
qed

lemma formatDate_same_local_day:
  assumes "Day (LocalTime tza a) = Day (LocalTime tzb b)"
  shows "formatDate tza (Date (Some a)) p = formatDate tzb (Date (Some b)) p"
  using fields_of_Day[OF assms]
  by (simp add: formatDate_def getFullYear_def getMonth_def getDate_def)

section \<open>Formatting with tokens\<close>

lemma replaceAll_skip:
  assumes "pat \<noteq> []" "hd pat \<notin> set u"
  shows "replaceAll pat rep (u @ s) = u @ replaceAll pat rep s"
  using assms(2)
proof (induction u)
  case Nil
  then show ?case by simp
next
  case (Cons c u)
  have "take (length pat) (c # u @ s) \<noteq> pat"
  proof
    assume e: "take (length pat) (c # u @ s) = pat"
    obtain p ps where p: "pat = p # ps" using assms(1) by (cases pat) auto
    with e have "p = c" by simp
    with p Cons.prems show False by simp
  qed
  with Cons show ?case by simp
qed

lemma replaceAll_match:
  assumes "pat \<noteq> []"
  shows "replaceAll pat rep (pat @ s) = rep @ replaceAll pat rep s"
proof -
  obtain p ps where p: "pat = p # ps" using assms by (cases pat) auto
  show ?thesis unfolding p by simp
qed

lemma replaceAll_head:
  assumes "rep \<noteq> []" "a \<notin> set rep" "a \<notin> set pat"
  shows "(take 1 (replaceAll pat rep s) = [a]) = (take 1 s = [a])"
proof (cases s)
  case Nil
  then show ?thesis by simp
next
  case (Cons c cs)
  show ?thesis
  proof (cases "pat \<noteq> [] \<and> take (length pat) (c # cs) = pat")
    case True
    obtain p ps where p: "pat = p # ps" using True by (cases pat) auto
    with True have "p = c" by simp
    with p assms(3) have ca: "c \<noteq> a" by auto
    obtain r rs where r: "rep = r # rs" using assms(1) by (cases rep) auto
    with assms(2) have "r \<noteq> a" by auto
    with True r ca show ?thesis unfolding Cons by simp
  next
    case False
    then show ?thesis unfolding Cons by auto
  qed
qed

lemma passes_plain:
  assumes "plain Y" "plain MM" "plain M1" "plain DD" "plain D1"
    and "CHR ''y'' \<notin> set u" "CHR ''M'' \<notin> set u" "CHR ''d'' \<notin> set u"
  shows "passes Y MM M1 DD D1 (u @ s) = u @ passes Y MM M1 DD D1 s"
  using assms unfolding passes_def by (simp add: replaceAll_skip)

lemma passes_yyyy:
  assumes "plain Y" "plain MM" "plain M1" "plain DD" "plain D1"
  shows "passes Y MM M1 DD D1 (''yyyy'' @ s) = Y @ passes Y MM M1 DD D1 s"
proof -
  have "replaceAll ''yyyy'' Y (''yyyy'' @ s) = Y @ replaceAll ''yyyy'' Y s"
    by (rule replaceAll_match) simp
  then show ?thesis
    unfolding passes_def using assms(1) by (simp add: replaceAll_skip plain_def del: replaceAll.simps)
qed

lemma passes_MM:
  assumes "plain Y" "plain MM" "plain M1" "plain DD" "plain D1"
  shows "passes Y MM M1 DD D1 (''MM'' @ s) = MM @ passes Y MM M1 DD D1 s"
proof -
  have 1: "replaceAll ''yyyy'' Y (''MM'' @ s) = ''MM'' @ replaceAll ''yyyy'' Y s"
    by (rule replaceAll_skip) simp_all
  have 2: "replaceAll ''MM'' MM (''MM'' @ t) = MM @ replaceAll ''MM'' MM t" for t
    by (rule replaceAll_match) simp
  show ?thesis
    unfolding passes_def 1 2 using assms(2) by (simp add: replaceAll_skip plain_def del: replaceAll.simps)
qed

lemma passes_dd:
  assumes "plain Y" "plain MM" "plain M1" "plain DD" "plain D1"
  shows "passes Y MM M1 DD D1 (''dd'' @ s) = DD @ passes Y MM M1 DD D1 s"
proof -
  have 1: "replaceAll ''yyyy'' Y (''dd'' @ t) = ''dd'' @ replaceAll ''yyyy'' Y t" for t
    by (rule replaceAll_skip) simp_all
  have 2: "replaceAll ''MM'' MM (''dd'' @ t) = ''dd'' @ replaceAll ''MM'' MM t" for t
    by (rule replaceAll_skip) simp_all
  have 3: "replaceAll ''M'' M1 (''dd'' @ t) = ''dd'' @ replaceAll ''M'' M1 t" for t
    by (rule replaceAll_skip) simp_all
  have 4: "replaceAll ''dd'' DD (''dd'' @ t) = DD @ replaceAll ''dd'' DD t" for t
    by (rule replaceAll_match) simp
  show ?thesis unfolding passes_def 1 2 3 4
    using assms(4) by (simp add: replaceAll_skip plain_def del: replaceAll.simps)
qed

text \<open>A single letter that is not the start of a longer token.\<close>

lemma passes_M:
  assumes "plain Y" "plain MM" "plain M1" "plain DD" "plain D1"
    and "take 1 s \<noteq> ''M''"
  shows "passes Y MM M1 DD D1 (CHR ''M'' # s) = M1 @ passes Y MM M1 DD D1 s"
proof -
  have 1: "replaceAll ''yyyy'' Y (''M'' @ s) = ''M'' @ replaceAll ''yyyy'' Y s"
    by (rule replaceAll_skip) simp_all
  have h: "take 1 (replaceAll ''yyyy'' Y s) \<noteq> ''M''"
    using replaceAll_head[of Y "CHR ''M''" "''yyyy''" s] assms(1,6) by (simp add: plain_def)
  have 2: "replaceAll ''MM'' MM (CHR ''M'' # t) = CHR ''M'' # replaceAll ''MM'' MM t"
    if "take 1 t \<noteq> ''M''" for t
    using that by (cases t) auto
  have 3: "replaceAll ''M'' M1 (''M'' @ t) = M1 @ replaceAll ''M'' M1 t" for t
    by (rule replaceAll_match) simp
  have "replaceAll ''M'' M1 (replaceAll ''MM'' MM (replaceAll ''yyyy'' Y (CHR ''M'' # s)))
          = M1 @ replaceAll ''M'' M1 (replaceAll ''MM'' MM (replaceAll ''yyyy'' Y s))"
    using 1 2[OF h] 3 by simp
  then show ?thesis
    unfolding passes_def using assms(3) by (simp add: replaceAll_skip plain_def del: replaceAll.simps)
qed

lemma passes_d:
  assumes "plain Y" "plain MM" "plain M1" "plain DD" "plain D1"
    and "take 1 s \<noteq> ''d''"
  shows "passes Y MM M1 DD D1 (CHR ''d'' # s) = D1 @ passes Y MM M1 DD D1 s"
proof -
  define x where "x = replaceAll ''M'' M1 (replaceAll ''MM'' MM (replaceAll ''yyyy'' Y s))"
  have 1: "replaceAll ''yyyy'' Y (''d'' @ t) = ''d'' @ replaceAll ''yyyy'' Y t" for t
    by (rule replaceAll_skip) simp_all
  have 2: "replaceAll ''MM'' MM (''d'' @ t) = ''d'' @ replaceAll ''MM'' MM t" for t
    by (rule replaceAll_skip) simp_all
  have 3: "replaceAll ''M'' M1 (''d'' @ t) = ''d'' @ replaceAll ''M'' M1 t" for t
    by (rule replaceAll_skip) simp_all
  have h1: "take 1 (replaceAll ''yyyy'' Y s) \<noteq> ''d''"
    using replaceAll_head[of Y "CHR ''d''" "''yyyy''" s] assms(1,6) by (simp add: plain_def)
  have h2: "take 1 (replaceAll ''MM'' MM (replaceAll ''yyyy'' Y s)) \<noteq> ''d''"
    using replaceAll_head[of MM "CHR ''d''" "''MM''" "replaceAll ''yyyy'' Y s"] assms(2) h1
    by (simp add: plain_def)
  have h3: "take 1 x \<noteq> ''d''"
    unfolding x_def
    using replaceAll_head[of M1 "CHR ''d''" "''M''" "replaceAll ''MM'' MM (replaceAll ''yyyy'' Y s)"]
      assms(3) h2
    by (simp add: plain_def)
  have 4: "replaceAll ''dd'' DD (CHR ''d'' # t) = CHR ''d'' # replaceAll ''dd'' DD t"
    if "take 1 t \<noteq> ''d''" for t
    using that by (cases t) auto
  have 5: "replaceAll ''d'' D1 (''d'' @ t) = D1 @ replaceAll ''d'' D1 t" for t
    by (rule replaceAll_match) simp
  have "replaceAll ''M'' M1 (replaceAll ''MM'' MM (replaceAll ''yyyy'' Y (CHR ''d'' # s)))
          = CHR ''d'' # x"
    using 1[of s] 2 3 by (simp add: x_def del: replaceAll.simps)
  then have "passes Y MM M1 DD D1 (CHR ''d'' # s)
          = replaceAll ''d'' D1 (CHR ''d'' # replaceAll ''dd'' DD x)"
    unfolding passes_def using 4[OF h3] by (simp del: replaceAll.simps)
  also have "\<dots> = D1 @ replaceAll ''d'' D1 (replaceAll ''dd'' DD x)"
    using 5 by simp
  finally show ?thesis by (simp add: x_def passes_def)
qed

lemma replaceAll_nomatch:
  "take (length pat) (c # cs) \<noteq> pat
     \<Longrightarrow> replaceAll pat rep (c # cs) = c # replaceAll pat rep cs"
  by simp

lemma passes_y:
  assumes "plain Y" "plain MM" "plain M1" "plain DD" "plain D1"
    and "take 4 (CHR ''y'' # s) \<noteq> ''yyyy''"
  shows "passes Y MM M1 DD D1 (CHR ''y'' # s) = CHR ''y'' # passes Y MM M1 DD D1 s"
proof -
  have "take (length ''yyyy'') (CHR ''y'' # s) \<noteq> ''yyyy''"
    using assms(6) by (simp add: numeral_3_eq_3)
  then have "replaceAll ''yyyy'' Y (CHR ''y'' # s) = CHR ''y'' # replaceAll ''yyyy'' Y s"
    by (rule replaceAll_nomatch)
  moreover have "replaceAll pat rep (CHR ''y'' # t) = CHR ''y'' # replaceAll pat rep t"
    if "pat \<noteq> []" "hd pat \<noteq> CHR ''y''" for pat rep t
    using replaceAll_skip[of pat "''y''" rep t] that by simp
  ultimately show ?thesis unfolding passes_def by (simp del: replaceAll.simps)
qed

lemma passes_other:
  assumes "plain Y" "plain MM" "plain M1" "plain DD" "plain D1"
    and "c \<noteq> CHR ''y''" "c \<noteq> CHR ''M''" "c \<noteq> CHR ''d''"
  shows "passes Y MM M1 DD D1 (c # s) = c # passes Y MM M1 DD D1 s"
  using passes_plain[OF assms(1-5), of "[c]" s] assms(6-8) by simp


lemma take_split: "take n s = p \<Longrightarrow> length p = n \<Longrightarrow> s = p @ drop n s"
  by (metis append_take_drop_id)

text \<open>
  Five replacements in sequence give the same text as reading the pattern once, as long as
  no replacement text contains a token letter: later passes find nothing to replace in
  what earlier passes wrote.
\<close>

lemma passes_formatPattern_spec:
  assumes p: "plain Y" "plain MM" "plain M1" "plain DD" "plain D1"
  shows "passes Y MM M1 DD D1 s = formatPattern_spec Y MM M1 DD D1 s"
proof (induction s rule: length_induct)
  case (1 s)
  show ?case
  proof (cases s)
    case Nil
    then show ?thesis by (simp add: passes_def)
  next
    case (Cons c cs)
    have IH: "passes Y MM M1 DD D1 t = formatPattern_spec Y MM M1 DD D1 t"
      if "length t \<le> length cs" for t
      using 1 that by (simp add: Cons)
    consider (yyyy) "take 4 s = ''yyyy''"
      | (MM) "take 4 s \<noteq> ''yyyy''" "take 2 s = ''MM''"
      | (M) "take 2 s \<noteq> ''MM''" "c = CHR ''M''"
      | (dd) "take 2 s = ''dd''"
      | (d) "take 2 s \<noteq> ''dd''" "c = CHR ''d''"
      | (y) "take 4 s \<noteq> ''yyyy''" "c = CHR ''y''"
      | (other) "c \<noteq> CHR ''y''" "c \<noteq> CHR ''M''" "c \<noteq> CHR ''d''"
      by blast
    then show ?thesis
    proof cases
      case yyyy
      define r where "r = drop 3 cs"
      have s: "s = ''yyyy'' @ r"
        using yyyy take_split[of 4 s "''yyyy''"] by (simp add: r_def Cons)
      have "passes Y MM M1 DD D1 s = Y @ passes Y MM M1 DD D1 r"
        unfolding s by (rule passes_yyyy[OF p])
      also have "\<dots> = Y @ formatPattern_spec Y MM M1 DD D1 r"
        using IH[of r] by (simp add: r_def)
      also have "\<dots> = formatPattern_spec Y MM M1 DD D1 s"
        using yyyy by (simp add: Cons r_def)
      finally show ?thesis .
    next
      case MM
      define r where "r = drop 1 cs"
      have s: "s = ''MM'' @ r"
        using MM take_split[of 2 s "''MM''"] by (simp add: r_def Cons)
      have "passes Y MM M1 DD D1 s = MM @ passes Y MM M1 DD D1 r"
        unfolding s by (rule passes_MM[OF p])
      also have "\<dots> = MM @ formatPattern_spec Y MM M1 DD D1 r"
        using IH[of r] by (simp add: r_def)
      also have "\<dots> = formatPattern_spec Y MM M1 DD D1 s"
        using MM by (simp add: Cons r_def)
      finally show ?thesis .
    next
      case M
      then have n: "take 1 cs \<noteq> ''M''" by (cases cs) (auto simp add: Cons)
      have "passes Y MM M1 DD D1 s = M1 @ passes Y MM M1 DD D1 cs"
        using passes_M[OF p n] M by (simp add: Cons)
      also have "\<dots> = M1 @ formatPattern_spec Y MM M1 DD D1 cs"
        using IH[of cs] by simp
      also have "\<dots> = formatPattern_spec Y MM M1 DD D1 s"
        using M by (simp add: Cons)
      finally show ?thesis .
    next
      case dd
      define r where "r = drop 1 cs"
      have s: "s = ''dd'' @ r"
        using dd take_split[of 2 s "''dd''"] by (simp add: r_def Cons)
      have "passes Y MM M1 DD D1 s = DD @ passes Y MM M1 DD D1 r"
        unfolding s by (rule passes_dd[OF p])
      also have "\<dots> = DD @ formatPattern_spec Y MM M1 DD D1 r"
        using IH[of r] by (simp add: r_def)
      also have "\<dots> = formatPattern_spec Y MM M1 DD D1 s"
        using dd by (simp add: Cons r_def)
      finally show ?thesis .
    next
      case d
      then have n: "take 1 cs \<noteq> ''d''" by (cases cs) (auto simp add: Cons)
      have "passes Y MM M1 DD D1 s = D1 @ passes Y MM M1 DD D1 cs"
        using passes_d[OF p n] d by (simp add: Cons)
      also have "\<dots> = D1 @ formatPattern_spec Y MM M1 DD D1 cs"
        using IH[of cs] by simp
      also have "\<dots> = formatPattern_spec Y MM M1 DD D1 s"
        using d by (simp add: Cons)
      finally show ?thesis .
    next
      case y
      then have n: "take 4 (CHR ''y'' # cs) \<noteq> ''yyyy''" by (simp add: Cons)
      have "passes Y MM M1 DD D1 s = CHR ''y'' # passes Y MM M1 DD D1 cs"
        using passes_y[OF p n] y by (simp add: Cons)
      also have "\<dots> = CHR ''y'' # formatPattern_spec Y MM M1 DD D1 cs"
        using IH[of cs] by simp
      also have "\<dots> = formatPattern_spec Y MM M1 DD D1 s"
        using y by (simp add: Cons)
      finally show ?thesis .
    next
      case other
      have "passes Y MM M1 DD D1 s = c # passes Y MM M1 DD D1 cs"
        using passes_other[OF p other] by (simp add: Cons)
      also have "\<dots> = c # formatPattern_spec Y MM M1 DD D1 cs"
        using IH[of cs] by simp
      also have "\<dots> = formatPattern_spec Y MM M1 DD D1 s"
        using other by (simp add: Cons)
      finally show ?thesis .
    qed
  qed
qed

lemma digitChar_digit: "n < 10 \<Longrightarrow> digitChar n \<in> set ''0123456789''"
  unfolding digitChar_def by (rule nth_mem) simp

lemma digitsOf_digits: "digitsOf n \<noteq> [] \<and> set (digitsOf n) \<subseteq> set ''0123456789''"
proof (induction n rule: digitsOf.induct)
  case (1 n)
  show ?case
  proof (cases "n < 10")
    case True
    then show ?thesis using digitChar_digit[of n] by (subst (1 2) digitsOf.simps) simp
  next
    case False
    have "n mod 10 < 10" by simp
    then have "digitChar (n mod 10) \<in> set ''0123456789''" by (rule digitChar_digit)
    with False 1 show ?thesis by (subst (1 2) digitsOf.simps) simp
  qed
qed

lemma plain_digitsOf: "plain (digitsOf n)"
  using digitsOf_digits[of n] unfolding plain_def by auto

lemma plain_toString: "plain (toString x)"
proof (cases x)
  case None
  then show ?thesis by (simp add: toString_def plain_def)
next
  case (Some i)
  then show ?thesis using plain_digitsOf[of "nat (- i)"] plain_digitsOf[of "nat i"]
    by (simp add: toString_def plain_def)
qed

lemma plain_pad2: "plain (pad2 x)"
  using plain_toString[of x] by (simp add: pad2_def plain_def)

lemma length_digitsOf_1: "n < 10 \<Longrightarrow> length (digitsOf n) = 1"
  by (subst digitsOf.simps) simp

lemma length_digitsOf_2: "10 \<le> n \<Longrightarrow> n < 100 \<Longrightarrow> length (digitsOf n) = 2"
  using length_digitsOf_1[of "n div 10"] by (subst digitsOf.simps) simp

lemma length_digitsOf_3: "100 \<le> n \<Longrightarrow> n < 1000 \<Longrightarrow> length (digitsOf n) = 3"
  using length_digitsOf_2[of "n div 10"] by (subst digitsOf.simps) simp

lemma length_digitsOf_4: "1000 \<le> n \<Longrightarrow> n < 10000 \<Longrightarrow> length (digitsOf n) = 4"
  using length_digitsOf_3[of "n div 10"] by (subst digitsOf.simps) simp

lemma length_pad2: "1 \<le> i \<Longrightarrow> i \<le> 99 \<Longrightarrow> length (pad2 (Some i)) = 2"
  using length_digitsOf_1[of "nat i"] length_digitsOf_2[of "nat i"]
  by (cases "i < 10") (simp_all add: pad2_def toString_def)

lemma length_toString_year:
  "1000 \<le> y \<Longrightarrow> y \<le> 9999 \<Longrightarrow> length (toString (Some y)) = 4"
  using length_digitsOf_4[of "nat y"] by (simp add: toString_def)

lemma formatDate_passes:
  "formatDate tza date formatStr =
     passes (toString (getFullYear tza date))
       (pad2 (nplus (getMonth tza date) (Some 1))) (toString (nplus (getMonth tza date) (Some 1)))
       (pad2 (getDate tza date)) (toString (getDate tza date)) formatStr"
  by (simp add: formatDate_def passes_def Let_def)

lemma MonthFromTime_bounds: "0 \<le> MonthFromTime t \<and> MonthFromTime t \<le> 11"
  unfolding MonthFromTime_def Let_def by simp

lemma getMonth_bounds: "getMonth tza d = Some m \<Longrightarrow> 0 \<le> m \<and> m \<le> 11"
  using MonthFromTime_bounds by (cases "getTime d") (auto simp add: getMonth_def)

text \<open>
  Claim C6, amended. \<open>formatDate\<close> replaces every occurrence of \<^verbatim>\<open>yyyy\<close> with the year as
  \<^verbatim>\<open>toString\<close> writes it, without padding (four digits exactly for the years 1000 to
  9999), \<^verbatim>\<open>MM\<close> with the month in two digits, \<^verbatim>\<open>M\<close> with the month, \<^verbatim>\<open>dd\<close> with the day
  in two digits and \<^verbatim>\<open>d\<close> with the day, a two-letter token before its single-letter
  counterpart; for a date on 2025-04-08 the pattern \<^verbatim>\<open>yyyy-MM-dd\<close> gives 2025-04-08 and
  \<^verbatim>\<open>yyyy-M-d\<close> gives 2025-4-8.
\<close>

theorem formatDate_tokens:
  "formatDate tza date formatStr =
     formatPattern_spec (toString (getFullYear tza date))
       (pad2 (nplus (getMonth tza date) (Some 1))) (toString (nplus (getMonth tza date) (Some 1)))
       (pad2 (getDate tza date)) (toString (getDate tza date)) formatStr
   \<and> (isValidDate date \<longrightarrow>
        length (pad2 (nplus (getMonth tza date) (Some 1))) = 2
        \<and> length (pad2 (getDate tza date)) = 2)
   \<and> (\<forall>y. getFullYear tza date = Some y \<and> 1000 \<le> y \<and> y \<le> 9999 \<longrightarrow>
        length (toString (getFullYear tza date)) = 4)
   \<and> (getFullYear tza date = Some 2025 \<and> getMonth tza date = Some 3
        \<and> getDate tza date = Some 8 \<longrightarrow>
        formatDate tza date ''yyyy-MM-dd'' = ''2025-04-08''
        \<and> formatDate tza date ''yyyy-M-d'' = ''2025-4-8'')"
proof (intro conjI impI allI)
  show "formatDate tza date formatStr =
     formatPattern_spec (toString (getFullYear tza date))
       (pad2 (nplus (getMonth tza date) (Some 1))) (toString (nplus (getMonth tza date) (Some 1)))
       (pad2 (getDate tza date)) (toString (getDate tza date)) formatStr"
    unfolding formatDate_passes
    by (rule passes_formatPattern_spec) (rule plain_toString plain_pad2)+
next
  assume v: "isValidDate date"
  then obtain t where t: "getTime date = Some t"
    by (cases "getTime date") (simp_all add: isValidDate_def isNaN_def to_jsnum_def)
  then obtain m where m: "getMonth tza date = Some m" by (simp add: getMonth_def)
  from t obtain d where d: "getDate tza date = Some d" by (simp add: getDate_def)
  show "length (pad2 (nplus (getMonth tza date) (Some 1))) = 2"
    using getMonth_bounds[OF m] length_pad2[of "m + 1"] by (simp add: m)
  show "length (pad2 (getDate tza date)) = 2"
    using getDate_bounds[OF d] length_pad2[of d] by (simp add: d)
next
  fix y
  assume "getFullYear tza date = Some y \<and> 1000 \<le> y \<and> y \<le> 9999"
  then show "length (toString (getFullYear tza date)) = 4"
    using length_toString_year[of y] by simp
next
  assume f: "getFullYear tza date = Some 2025 \<and> getMonth tza date = Some 3
        \<and> getDate tza date = Some 8"
  have y: "toString (Some 2025) = ''2025''" by code_simp
  have m2: "pad2 (Some 4) = ''04''" by code_simp
  have m1: "toString (Some 4) = ''4''" by code_simp
  have d2: "pad2 (Some 8) = ''08''" by code_simp
  have d1: "toString (Some 8) = ''8''" by code_simp
  show "formatDate tza date ''yyyy-MM-dd'' = ''2025-04-08''"
    using f by (simp add: formatDate_def y m2 m1 d2 d1)
  show "formatDate tza date ''yyyy-M-d'' = ''2025-4-8''"
    using f by (simp add: formatDate_def y m2 m1 d2 d1)
qed

text \<open>
  Claim C6 as stated has \<^verbatim>\<open>yyyy\<close> replaced by the 4-digit year. On 5 March of the year 50
  (UTC) \<open>formatDate\<close> writes the year with two digits, also when it is called through
  \<open>formatSafeDate\<close> with that day in epoch seconds.
\<close>

theorem formatDate_year_50:
  "isValidDate (Date (Some (- 60583852800000)))
   \<and> getFullYear 0 (Date (Some (- 60583852800000))) = Some 50
   \<and> formatDate 0 (Date (Some (- 60583852800000))) ''yyyy'' = ''50''
   \<and> length (formatDate 0 (Date (Some (- 60583852800000))) ''yyyy'') = 2
   \<and> formatDate 0 (Date (Some (- 60583852800000))) ''yyyy-MM-dd'' = ''50-03-05''
   \<and> formatSafeDate 0 parseISODate (NumberValue (Fin (- 60583852800))) ''yyyy'' = ''50''"
  by code_simp

text \<open>An instance in KST on 2025-04-08, also with runs of three token letters.\<close>

theorem formatDate_tokens_witness:
  "isValidDate (Date (Some 1744070400000))
   \<and> getFullYear 32400000 (Date (Some 1744070400000)) = Some 2025
   \<and> getMonth 32400000 (Date (Some 1744070400000)) = Some 3
   \<and> getDate 32400000 (Date (Some 1744070400000)) = Some 8
   \<and> (1000::int) \<le> 2025 \<and> (2025::int) \<le> 9999
   \<and> formatDate 32400000 (Date (Some 1744070400000)) ''yyyy-MM-dd'' = ''2025-04-08''
   \<and> formatDate 32400000 (Date (Some 1744070400000)) ''yyyy-M-d'' = ''2025-4-8''
   \<and> length (toString (getFullYear 32400000 (Date (Some 1744070400000)))) = 4
   \<and> length (pad2 (getDate 32400000 (Date (Some 1744070400000)))) = 2
   \<and> formatDate 32400000 (Date (Some 1744070400000)) ''MMM d, ddd''
       = formatPattern_spec ''2025'' ''04'' ''4'' ''08'' ''8'' ''MMM d, ddd''
   \<and> formatPattern_spec ''2025'' ''04'' ''4'' ''08'' ''8'' ''MMM d, ddd'' = ''044 8, 088''"
proof -
  have h1: "isValidDate (Date (Some 1744070400000))" by code_simp
  have h2: "getFullYear 32400000 (Date (Some 1744070400000)) = Some 2025" by code_simp
  have h3: "getMonth 32400000 (Date (Some 1744070400000)) = Some 3" by code_simp
  have h4: "getDate 32400000 (Date (Some 1744070400000)) = Some 8" by code_simp
  have y: "toString (Some 2025) = ''2025''" by code_simp
  have m2: "pad2 (Some 4) = ''04''" by code_simp
  have m1: "toString (Some 4) = ''4''" by code_simp
  have d2: "pad2 (Some 8) = ''08''" by code_simp
  have d1: "toString (Some 8) = ''8''" by code_simp
  have e: "formatPattern_spec ''2025'' ''04'' ''4'' ''08'' ''8'' ''MMM d, ddd'' = ''044 8, 088''"
    by code_simp
  note t = formatDate_tokens [of 32400000 "Date (Some 1744070400000)" "''MMM d, ddd''"]
  show ?thesis
    using t h1 h2 h3 h4 e by (simp add: y m2 m1 d2 d1)
qed

section \<open>The string of one space\<close>

lemma Day_west: "- msPerDay \<le> t \<Longrightarrow> t < 0 \<Longrightarrow> Day t = - 1"
proof -
  assume a: "- msPerDay \<le> t" "t < 0"
  have e: "t = msPerDay * (- 1) + (t + msPerDay)" by simp
  have "t div msPerDay = - 1" using int_div_pos_eq[OF e] a by simp
  then show ?thesis by (simp add: Day_def)
qed

lemma Day_east: "0 \<le> t \<Longrightarrow> t < msPerDay \<Longrightarrow> Day t = 0"
  by (simp add: Day_def)

lemma formatDate_yyyy_MM_dd:
  "formatDate tza date ''yyyy-MM-dd''
     = toString (getFullYear tza date) @ ''-'' @ pad2 (nplus (getMonth tza date) (Some 1))
         @ ''-'' @ pad2 (getDate tza date)"
proof -
  have "formatDate tza date ''yyyy-MM-dd''
          = formatPattern_spec (toString (getFullYear tza date))
              (pad2 (nplus (getMonth tza date) (Some 1)))
              (toString (nplus (getMonth tza date) (Some 1)))
              (pad2 (getDate tza date)) (toString (getDate tza date)) ''yyyy-MM-dd''"
    unfolding formatDate_passes
    by (rule passes_formatPattern_spec) (rule plain_toString plain_pad2)+
  then show ?thesis by simp
qed

lemma formatDate_yyyy_MM_dd_not_placeholder: "formatDate tza date ''yyyy-MM-dd'' \<noteq> ''-''"
proof -
  have "toString (getFullYear tza date) \<noteq> []"
    using plain_toString[of "getFullYear tza date"] by (simp add: plain_def)
  then have "2 \<le> length (formatDate tza date ''yyyy-MM-dd'')"
    unfolding formatDate_yyyy_MM_dd by (cases "toString (getFullYear tza date)") simp_all
  then show ?thesis by auto
qed

lemma formatSafeDate_space:
  "formatSafeDate tza parse (StringValue '' '') p = formatDate tza (Date (Some 0)) p"
proof -
  have n: "StringToNumber '' '' = Fin 0" by code_simp
  have "toDouble (of_int 0) = Fin (of_int 0)" by (rule toDouble_of_int) simp
  then have z: "toDouble 0 = Fin 0" by simp
  have "TimeClip (Fin (of_int 0)) = Some 0" by (simp only: TimeClip_of_int) simp
  then have d: "fromUnixTime (Fin 0) = Date (Some 0)"
    by (simp add: fromUnixTime_def new_Date_number_def z)
  show ?thesis
    using n d by (simp add: formatSafeDate_def isNaN_def isValidDate_iff)
qed

text \<open>
  Claim C9, amended. The string of one space is truthy and is no date, and
  \<open>formatSafeDate\<close> does not answer it with the placeholder: \<^verbatim>\<open>Number(" ")\<close> is 0, the string
  counts as the epoch value 0 seconds, and the result is the local date of the instant
  1970-01-01T00:00:00Z in the given pattern, whatever \<^verbatim>\<open>Date.parse\<close> makes of the string.
  For the pattern \<^verbatim>\<open>yyyy-MM-dd\<close> that is never the placeholder; it is 1970-01-01 in every
  time zone from UTC to UTC+23:59 and 1969-12-31 in every time zone from UTC-24:00 to just
  west of UTC.
\<close>

theorem formatSafeDate_whitespace:
  "\<not> falsy (StringValue '' '') \<and> StringToNumber '' '' = Fin 0
   \<and> formatSafeDate tza parse (StringValue '' '') p = formatDate tza (Date (Some 0)) p
   \<and> formatSafeDate tza parse (StringValue '' '') ''yyyy-MM-dd'' \<noteq> ''-''
   \<and> (0 \<le> tza \<and> tza < msPerDay \<longrightarrow>
        formatSafeDate tza parse (StringValue '' '') ''yyyy-MM-dd'' = ''1970-01-01'')
   \<and> (- msPerDay \<le> tza \<and> tza < 0 \<longrightarrow>
        formatSafeDate tza parse (StringValue '' '') ''yyyy-MM-dd'' = ''1969-12-31'')"
proof (intro conjI impI)
  show "\<not> falsy (StringValue '' '')" by simp
  show "StringToNumber '' '' = Fin 0" by code_simp
  show "formatSafeDate tza parse (StringValue '' '') p = formatDate tza (Date (Some 0)) p"
    by (rule formatSafeDate_space)
  show "formatSafeDate tza parse (StringValue '' '') ''yyyy-MM-dd'' \<noteq> ''-''"
    unfolding formatSafeDate_space by (rule formatDate_yyyy_MM_dd_not_placeholder)
next
  assume "0 \<le> tza \<and> tza < msPerDay"
  then have "Day (LocalTime tza 0) = Day (LocalTime 0 0)"
    by (simp add: LocalTime_def Day_east)
  then have "formatDate tza (Date (Some 0)) ''yyyy-MM-dd''
               = formatDate 0 (Date (Some 0)) ''yyyy-MM-dd''"
    by (rule formatDate_same_local_day)
  moreover have "formatDate 0 (Date (Some 0)) ''yyyy-MM-dd'' = ''1970-01-01''" by code_simp
  ultimately show "formatSafeDate tza parse (StringValue '' '') ''yyyy-MM-dd'' = ''1970-01-01''"
    unfolding formatSafeDate_space by simp
next
  assume "- msPerDay \<le> tza \<and> tza < 0"
  then have "Day (LocalTime tza 0) = Day (LocalTime (- 1) 0)"
    by (simp add: LocalTime_def Day_west msPerDay_def)
  then have "formatDate tza (Date (Some 0)) ''yyyy-MM-dd''
               = formatDate (- 1) (Date (Some 0)) ''yyyy-MM-dd''"
    by (rule formatDate_same_local_day)
  moreover have "formatDate (- 1) (Date (Some 0)) ''yyyy-MM-dd'' = ''1969-12-31''" by code_simp
  ultimately show "formatSafeDate tza parse (StringValue '' '') ''yyyy-MM-dd'' = ''1969-12-31''"
    unfolding formatSafeDate_space by simp
qed

text \<open>
  Claim C9 as stated has the date 1970-01-01 formatted. At UTC-5 the result for the string
  of one space and the pattern \<^verbatim>\<open>yyyy-MM-dd\<close> is 1969-12-31.
\<close>

theorem formatSafeDate_whitespace_UTC_minus_5:
  "\<not> falsy (StringValue '' '') \<and> parseISODate '' '' = None
   \<and> formatSafeDate (- 18000000) parseISODate (StringValue '' '') ''yyyy-MM-dd''
       = ''1969-12-31''
   \<and> formatSafeDate (- 18000000) parseISODate (StringValue '' '') ''yyyy-MM-dd''
       \<noteq> ''1970-01-01''"
  by code_simp

text \<open>Instances in KST and at UTC-5, with a parser that does not read the string as a date.\<close>

theorem formatSafeDate_whitespace_witness:
  "(0::int) \<le> 32400000 \<and> 32400000 < msPerDay \<and> parseISODate '' '' = None
   \<and> formatSafeDate 32400000 parseISODate (StringValue '' '') ''yyyy-MM-dd'' = ''1970-01-01''
   \<and> - msPerDay \<le> - 18000000 \<and> (- 18000000 :: int) < 0
   \<and> formatSafeDate (- 18000000) parseISODate (StringValue '' '') ''yyyy-MM-dd''
       = ''1969-12-31''"
proof -
  have h1: "(0::int) \<le> 32400000" by simp
  have h2: "32400000 < msPerDay" by (simp add: msPerDay_def)
  have h3: "parseISODate '' '' = None" by code_simp
  have h4: "- msPerDay \<le> - 18000000" by (simp add: msPerDay_def)
  have h5: "(- 18000000 :: int) < 0" by simp
  have e: "formatSafeDate 32400000 parseISODate (StringValue '' '') ''yyyy-MM-dd''
             = ''1970-01-01''"
    using h1 h2 formatSafeDate_whitespace [of 32400000 parseISODate "''yyyy-MM-dd''"]
    by blast
  have w: "formatSafeDate (- 18000000) parseISODate (StringValue '' '') ''yyyy-MM-dd''
             = ''1969-12-31''"
    using h4 h5 formatSafeDate_whitespace [of "- 18000000" parseISODate "''yyyy-MM-dd''"]
    by blast
  show ?thesis
    using h1 h2 h3 h4 h5 e w by blast
qed

end
